theory Spec2Isabelle
  imports Complex_Main "HOL-Library.AList" "HOL-Library.Multiset"
begin

section \<open>The combined savings algorithm (src/main.py)\<close>

text \<open>
  The Python program keeps its data in a class \<open>CombinedSavingsAlgorithm\<close>.  Its
  floating-point numbers are modelled as real numbers (so no rounding, no infinity and
  no NaN), its integers as \<open>int\<close>, the customer indices (which are never negative) as
  \<open>nat\<close>.  The two input dictionaries are only ever read through their values in
  insertion order (\<open>locations[location_keys[i]]\<close>, \<open>vehicle_types.values()\<close>), so each
  is the list of its values.  The dictionary \<open>self.routes\<close> is an association list in
  insertion order, because the lookup of the route of a customer takes the first match.
  Every exception that the modelled statements can raise is a value \<open>Inl\<close> of the result.

  Presentation is left out: the \<open>print\<close> calls, the strings of the report, and
  \<open>plot_current_routes\<close>, which the loop calls after it has stored an accepted merge and
  which reads the routes without changing them (with it the fields \<open>pause_interval\<close> and
  \<open>merge_count\<close>).
\<close>

subsection \<open>Data\<close>

record CustomerLocation =
  customer_id :: string
  latitude :: real
  longitude :: real
  demand :: int

record VehicleType =
  name :: string
  capacity :: int
  cost_per_km :: real

text \<open>A value of \<open>self.routes\<close>: \<open>{"route": ..., "vehicle": ...}\<close>; the vehicle is
  \<open>None\<close> when \<open>find_smallest_vehicle\<close> returned \<open>None\<close>.\<close>

record route_info =
  route :: "nat list"
  vehicle :: "VehicleType option"

record algorithm =
  locations :: "CustomerLocation list"
  vehicle_types :: "VehicleType list"
  cost_matrix :: "real list list"
  routes :: "(nat list \<times> route_info) list"

datatype py_error = IndexError | KeyError | AttributeError | TypeError

definition bind_result :: "py_error + 'a \<Rightarrow> ('a \<Rightarrow> py_error + 'b) \<Rightarrow> py_error + 'b" where
  "bind_result m f = (case m of Inl e \<Rightarrow> Inl e | Inr x \<Rightarrow> f x)"

subsection \<open>Distances and the cost matrix\<close>

definition calculate_distance :: "CustomerLocation \<Rightarrow> CustomerLocation \<Rightarrow> real" where
  "calculate_distance loc1 loc2 =
     100 * sqrt ((latitude loc1 - latitude loc2)\<^sup>2 + (longitude loc1 - longitude loc2)\<^sup>2)"

definition calculate_cost_matrix :: "CustomerLocation list \<Rightarrow> real list list" where
  "calculate_cost_matrix locs =
     (let n_customers = length locs
      in map (\<lambda>i. map (\<lambda>j. calculate_distance (locs ! i) (locs ! j)) [0..<n_customers])
           [0..<n_customers])"

text \<open>\<open>cost_matrix[i][j]\<close>; numpy raises IndexError out of range.\<close>

definition matrix_at :: "real list list \<Rightarrow> nat \<Rightarrow> nat \<Rightarrow> py_error + real" where
  "matrix_at m i j =
     (if i < length m then (if j < length (m ! i) then Inr (m ! i ! j) else Inl IndexError)
      else Inl IndexError)"

text \<open>\<open>self.locations[self.location_keys[customer]]\<close>\<close>

definition location_at :: "CustomerLocation list \<Rightarrow> nat \<Rightarrow> py_error + CustomerLocation" where
  "location_at locs c = (if c < length locs then Inr (locs ! c) else Inl IndexError)"

subsection \<open>The vehicle selector\<close>

definition find_smallest_vehicle :: "VehicleType list \<Rightarrow> int \<Rightarrow> VehicleType option" where
  "find_smallest_vehicle vts d =
     (let sorted_vehicle_types = sort_key cost_per_km vts
      in find (\<lambda>vehicle. d \<le> capacity vehicle) sorted_vehicle_types)"

subsection \<open>The distance of a route\<close>

text \<open>The loop over \<open>range(len(route) - 1)\<close>, with the running \<open>distance\<close>.\<close>

fun route_legs :: "real list list \<Rightarrow> nat list \<Rightarrow> real \<Rightarrow> py_error + real" where
  "route_legs m (a # b # rest) distance =
     bind_result (matrix_at m a b) (\<lambda>d. route_legs m (b # rest) (distance + d))"
| "route_legs m [a] distance = Inr distance"
| "route_legs m [] distance = Inr distance"

definition calculate_route_distance :: "real list list \<Rightarrow> nat list \<Rightarrow> py_error + real" where
  "calculate_route_distance m r =
     bind_result (route_legs m r 0) (\<lambda>distance.
       if r = [] then Inl IndexError
       else bind_result (matrix_at m 0 (hd r)) (\<lambda>out.
            bind_result (matrix_at m (last r) 0) (\<lambda>back.
              Inr (distance + (out + back)))))"

subsection \<open>The merge evaluator\<close>

text \<open>\<open>min_distance\<close> starts as \<open>float('inf')\<close>, here \<open>None\<close>; \<open>best_route\<close> starts as
  \<open>None\<close>.\<close>

definition less_than_min :: "real \<Rightarrow> real option \<Rightarrow> bool" where
  "less_than_min distance min_distance =
     (case min_distance of None \<Rightarrow> True | Some m \<Rightarrow> distance < m)"

fun select_best ::
  "real list list \<Rightarrow> nat list list \<Rightarrow> real option \<Rightarrow> nat list option \<Rightarrow> py_error + nat list option"
where
  "select_best m [] min_distance best_route = Inr best_route"
| "select_best m (r # rest) min_distance best_route =
     bind_result (calculate_route_distance m r) (\<lambda>distance.
       if less_than_min distance min_distance
       then select_best m rest (Some distance) (Some r)
       else select_best m rest min_distance best_route)"

definition merged_routes :: "nat list \<Rightarrow> nat list \<Rightarrow> nat list list" where
  "merged_routes route1 route2 =
     [route1 @ route2, route2 @ route1, rev route1 @ route2, route1 @ rev route2]"

definition combine_routes ::
  "real list list \<Rightarrow> nat list \<Rightarrow> nat list \<Rightarrow> py_error + nat list option" where
  "combine_routes m route1 route2 = select_best m (merged_routes route1 route2) None None"

subsection \<open>Initialisation\<close>

definition initial_routes ::
  "CustomerLocation list \<Rightarrow> VehicleType list \<Rightarrow> (nat list \<times> route_info) list" where
  "initial_routes locs vts =
     map (\<lambda>i. ([i + 1],
                \<lparr>route = [i + 1], vehicle = find_smallest_vehicle vts (demand (locs ! (i + 1)))\<rparr>))
       [0..<length locs - 1]"

text \<open>\<open>__init__\<close> has no \<open>raise\<close> and every index it reads is below
  \<open>len(locations)\<close>, so it always returns the object.\<close>

definition init :: "CustomerLocation list \<Rightarrow> VehicleType list \<Rightarrow> py_error + algorithm" where
  "init locs vts =
     Inr \<lparr>locations = locs, vehicle_types = vts, cost_matrix = calculate_cost_matrix locs,
          routes = initial_routes locs vts\<rparr>"

subsection \<open>The savings and the merge loop\<close>

type_synonym saving = "real \<times> nat \<times> nat"

definition saving_entry :: "real list list \<Rightarrow> nat \<Rightarrow> nat \<Rightarrow> py_error + saving" where
  "saving_entry m i j =
     bind_result (matrix_at m 0 (i + 1)) (\<lambda>a.
     bind_result (matrix_at m 0 (j + 1)) (\<lambda>b.
     bind_result (matrix_at m (i + 1) (j + 1)) (\<lambda>c.
       Inr (a + b - c, i + 1, j + 1))))"

fun collect :: "(py_error + 'a) list \<Rightarrow> py_error + 'a list" where
  "collect [] = Inr []"
| "collect (x # xs) = bind_result x (\<lambda>y. bind_result (collect xs) (\<lambda>ys. Inr (y # ys)))"

definition compute_savings :: "real list list \<Rightarrow> nat \<Rightarrow> py_error + saving list" where
  "compute_savings m n_customers =
     collect (concat (map (\<lambda>i. map (\<lambda>j. saving_entry m i j) [i + 1..<n_customers])
                        [0..<n_customers]))"

text \<open>\<open>savings.sort(reverse=True, key=lambda x: x[0])\<close>: CPython reverses the list,
  sorts it stably in ascending order and reverses the result.\<close>

definition sort_reverse :: "saving list \<Rightarrow> saving list" where
  "sort_reverse savings = rev (sort_key fst (rev savings))"

text \<open>\<open>next((key for key, value in self.routes.items() if i in value["route"]), None)\<close>\<close>

definition find_route_key :: "(nat list \<times> route_info) list \<Rightarrow> nat \<Rightarrow> nat list option" where
  "find_route_key rs i = map_option fst (find (\<lambda>(key, v). i \<in> set (route v)) rs)"

definition routes_get :: "(nat list \<times> route_info) list \<Rightarrow> nat list \<Rightarrow> py_error + route_info" where
  "routes_get rs key = (case map_of rs key of None \<Rightarrow> Inl KeyError | Some v \<Rightarrow> Inr v)"

text \<open>\<open>sum(self.locations[self.location_keys[customer]].demand for customer in ...)\<close>\<close>

fun demand_sum :: "CustomerLocation list \<Rightarrow> nat list \<Rightarrow> py_error + int" where
  "demand_sum locs [] = Inr 0"
| "demand_sum locs (customer # rest) =
     bind_result (location_at locs customer) (\<lambda>loc.
     bind_result (demand_sum locs rest) (\<lambda>s. Inr (demand loc + s)))"

text \<open>\<open>self.routes[key]["vehicle"].cost_per_km\<close>: AttributeError on \<open>None\<close>.\<close>

definition vehicle_cost_per_km :: "route_info \<Rightarrow> py_error + real" where
  "vehicle_cost_per_km v =
     (case vehicle v of None \<Rightarrow> Inl AttributeError | Some w \<Rightarrow> Inr (cost_per_km w))"

text \<open>\<open>calculate_route_distance(best_route)\<close>: TypeError on \<open>None\<close>; the route is
  returned with its distance.\<close>

definition best_route_distance ::
  "real list list \<Rightarrow> nat list option \<Rightarrow> py_error + nat list \<times> real" where
  "best_route_distance m best =
     (case best of None \<Rightarrow> Inl TypeError
      | Some r \<Rightarrow> bind_result (calculate_route_distance m r) (\<lambda>d. Inr (r, d)))"

text \<open>
  The body of the loop \<open>for saving, i, j in savings\<close>, in three parts.  First the end
  of it (lines 146 to 167): the best merged route, the two costs, and the decision.
\<close>

definition evaluate_merge ::
  "algorithm \<Rightarrow> nat list \<Rightarrow> nat list \<Rightarrow> route_info \<Rightarrow> route_info \<Rightarrow> VehicleType \<Rightarrow>
   py_error + algorithm" where
  "evaluate_merge self route_i_key route_j_key info_i info_j combined_vehicle =
     bind_result (combine_routes (cost_matrix self) (route info_i) (route info_j))
       (\<lambda>best_route.
     bind_result (calculate_route_distance (cost_matrix self) (route info_i))
       (\<lambda>original_distance_i.
     bind_result (calculate_route_distance (cost_matrix self) (route info_j))
       (\<lambda>original_distance_j.
     bind_result (vehicle_cost_per_km info_i) (\<lambda>cost_i.
     bind_result (vehicle_cost_per_km info_j) (\<lambda>cost_j.
     bind_result (best_route_distance (cost_matrix self) best_route)
       (\<lambda>(best, best_distance).
       let original_cost = original_distance_i * cost_i + original_distance_j * cost_j;
           new_cost = best_distance * cost_per_km combined_vehicle
       in if new_cost < original_cost
          then Inr (self\<lparr>routes :=
                 AList.update best \<lparr>route = best, vehicle = Some combined_vehicle\<rparr>
                   (AList.delete route_j_key (AList.delete route_i_key (routes self)))\<rparr>)
          else Inr self))))))"

text \<open>Lines 136 to 144: the two routes, their demand, the vehicle for it, and the
  \<open>continue\<close> when there is none.\<close>

definition try_merge :: "algorithm \<Rightarrow> nat list \<Rightarrow> nat list \<Rightarrow> py_error + algorithm" where
  "try_merge self route_i_key route_j_key =
     bind_result (routes_get (routes self) route_i_key) (\<lambda>info_i.
     bind_result (routes_get (routes self) route_j_key) (\<lambda>info_j.
     bind_result (demand_sum (locations self) (route info_i @ route info_j))
       (\<lambda>total_demand.
       case find_smallest_vehicle (vehicle_types self) total_demand of
         None \<Rightarrow> Inr self
       | Some combined_vehicle \<Rightarrow>
           evaluate_merge self route_i_key route_j_key info_i info_j combined_vehicle)))"

text \<open>Lines 128 to 135: the keys of the routes of \<open>i\<close> and \<open>j\<close>, and the test
  \<open>route_i_key and route_j_key and route_i_key != route_j_key\<close> (\<open>None\<close> and the
  empty tuple are false).\<close>

definition merge_step :: "algorithm \<Rightarrow> saving \<Rightarrow> py_error + algorithm" where
  "merge_step self sv =
     (case sv of (saving, i, j) \<Rightarrow>
      (case (find_route_key (routes self) i, find_route_key (routes self) j) of
         (Some route_i_key, Some route_j_key) \<Rightarrow>
           if route_i_key \<noteq> [] \<and> route_j_key \<noteq> [] \<and> route_i_key \<noteq> route_j_key
           then try_merge self route_i_key route_j_key
           else Inr self
       | _ \<Rightarrow> Inr self))"

fun merge_loop :: "algorithm \<Rightarrow> saving list \<Rightarrow> py_error + algorithm" where
  "merge_loop self [] = Inr self"
| "merge_loop self (sv # rest) =
     bind_result (merge_step self sv) (\<lambda>self'. merge_loop self' rest)"

definition n_customers :: "algorithm \<Rightarrow> nat" where
  "n_customers self = length (locations self) - 1"

definition sorted_savings :: "algorithm \<Rightarrow> py_error + saving list" where
  "sorted_savings self =
     bind_result (compute_savings (cost_matrix self) (n_customers self))
       (\<lambda>savings. Inr (sort_reverse savings))"

definition optimize_routes :: "algorithm \<Rightarrow> py_error + algorithm" where
  "optimize_routes self = bind_result (sorted_savings self) (merge_loop self)"

subsection \<open>The totals of the report\<close>

text \<open>
  The total cost that \<open>print_optimized_routes\<close> accumulates (lines 212 to 223): for
  each route its distance, its cost with \<open>vehicle.cost_per_km\<close> (AttributeError on
  \<open>None\<close>) and the sum of its demands; the strings it builds are left out.
\<close>

definition route_cost :: "algorithm \<Rightarrow> route_info \<Rightarrow> py_error + real" where
  "route_cost self info =
     bind_result (calculate_route_distance (cost_matrix self) (route info)) (\<lambda>route_distance.
     bind_result (vehicle_cost_per_km info) (\<lambda>c.
     bind_result (demand_sum (locations self) (route info)) (\<lambda>demand.
       Inr (route_distance * c))))"

fun sum_route_costs ::
  "algorithm \<Rightarrow> (nat list \<times> route_info) list \<Rightarrow> real \<Rightarrow> py_error + real" where
  "sum_route_costs self [] total_cost = Inr total_cost"
| "sum_route_costs self ((key, info) # rest) total_cost =
     bind_result (route_cost self info) (\<lambda>c. sum_route_costs self rest (total_cost + c))"

definition total_cost :: "algorithm \<Rightarrow> py_error + real" where
  "total_cost self = sum_route_costs self (routes self) 0"

subsection \<open>The states of the loop\<close>

text \<open>The states of the merge loop: the state before each iteration and the state at
  the end; the list stops at an iteration that raises.\<close>

fun merge_trace :: "algorithm \<Rightarrow> saving list \<Rightarrow> algorithm list" where
  "merge_trace self [] = [self]"
| "merge_trace self (sv # rest) =
     self # (case merge_step self sv of Inl e \<Rightarrow> [] | Inr self' \<Rightarrow> merge_trace self' rest)"

subsection \<open>Predicates of the statements\<close>

text \<open>A matrix with as many columns in each row as rows; a route whose indices are
  rows of the matrix.\<close>

definition square_matrix :: "real list list \<Rightarrow> bool" where
  "square_matrix m = (\<forall>row\<in>set m. length row = length m)"

definition in_range :: "real list list \<Rightarrow> nat list \<Rightarrow> bool" where
  "in_range m r = (\<forall>c\<in>set r. c < length m)"



text \<open>The list that the two nested loops over \<open>i\<close> (from \<open>a\<close>) and \<open>j\<close> append when
  every index is inside the matrix; it is used in the proofs only.\<close>

definition savings_enum :: "real list list \<Rightarrow> nat \<Rightarrow> nat \<Rightarrow> saving list" where
  "savings_enum m a n =
     concat (map (\<lambda>i. map (\<lambda>j. (m ! 0 ! (i + 1) + m ! 0 ! (j + 1) - m ! (i + 1) ! (j + 1),
                                  i + 1, j + 1)) [i + 1..<n]) [a..<n])"

text \<open>The dictionary of routes is consistent when every key is the sequence of its
  route (the key is \<open>tuple(route)\<close>), no route is empty and no customer occurs twice.
  The routes partition the customers \<open>1..n\<close> when, taken together, they hold every
  customer of \<open>1..n\<close> once and nothing else.\<close>

definition routes_consistent :: "(nat list \<times> route_info) list \<Rightarrow> bool" where
  "routes_consistent rs =
     ((\<forall>(key, info)\<in>set rs. route info = key \<and> key \<noteq> []) \<and> distinct (concat (map fst rs)))"

definition routes_partition :: "nat \<Rightarrow> (nat list \<times> route_info) list \<Rightarrow> bool" where
  "routes_partition n rs =
     (distinct (concat (map (\<lambda>(key, info). route info) rs)) \<and>
      set (concat (map (\<lambda>(key, info). route info) rs)) = {1..n})"

text \<open>A route is within capacity when it has a vehicle, the demands of its customers
  can be summed, and the sum is at most the capacity of the vehicle.  The invariant of
  a run over the locations \<open>locs\<close> collects what holds in every state of the loop when
  each customer alone can be served.\<close>

definition route_within_capacity :: "CustomerLocation list \<Rightarrow> route_info \<Rightarrow> bool" where
  "route_within_capacity locs info =
     (case vehicle info of None \<Rightarrow> False
      | Some w \<Rightarrow> (case demand_sum locs (route info) of Inl e \<Rightarrow> False
                    | Inr d \<Rightarrow> d \<le> capacity w))"

definition run_invariant :: "CustomerLocation list \<Rightarrow> algorithm \<Rightarrow> bool" where
  "run_invariant locs self =
     (locations self = locs \<and> square_matrix (cost_matrix self) \<and>
      length (cost_matrix self) = length locs \<and>
      routes_consistent (routes self) \<and> routes_partition (length locs - 1) (routes self) \<and>
      (\<forall>(key, info)\<in>set (routes self). route_within_capacity locs info))"

subsection \<open>Example data\<close>

text \<open>The catalog of src/data/vehicle_types.py with its two vehicles, and a catalog
  with equal costs.\<close>

definition type_A :: VehicleType where
  "type_A = \<lparr>name = ''Type A'', capacity = 25, cost_per_km = 6 / 5\<rparr>"

definition type_B :: VehicleType where
  "type_B = \<lparr>name = ''Type B'', capacity = 30, cost_per_km = 3 / 2\<rparr>"

definition vehicle_types_data :: "VehicleType list" where
  "vehicle_types_data =
     [\<lparr>name = ''Type A'', capacity = 25, cost_per_km = 6 / 5\<rparr>,
      \<lparr>name = ''Type B'', capacity = 30, cost_per_km = 3 / 2\<rparr>]"

definition vehicle_types_tied :: "VehicleType list" where
  "vehicle_types_tied =
     [\<lparr>name = ''Large'', capacity = 40, cost_per_km = 2\<rparr>,
      \<lparr>name = ''First'', capacity = 30, cost_per_km = 3 / 2\<rparr>,
      \<lparr>name = ''Small'', capacity = 25, cost_per_km = 6 / 5\<rparr>,
      \<lparr>name = ''Second'', capacity = 30, cost_per_km = 3 / 2\<rparr>]"

text \<open>The locations of src/data/locations.py, the depot first.\<close>

definition locations_data :: "CustomerLocation list" where
  "locations_data =
     [\<lparr>customer_id = ''Depot'', latitude = 4.4184, longitude = 114.0932, demand = 0\<rparr>,
      \<lparr>customer_id = ''1'', latitude = 4.3555, longitude = 113.9777, demand = 5\<rparr>,
      \<lparr>customer_id = ''2'', latitude = 4.3976, longitude = 114.0049, demand = 8\<rparr>,
      \<lparr>customer_id = ''3'', latitude = 4.3163, longitude = 114.0764, demand = 3\<rparr>,
      \<lparr>customer_id = ''4'', latitude = 4.3184, longitude = 113.9932, demand = 6\<rparr>,
      \<lparr>customer_id = ''5'', latitude = 4.4024, longitude = 113.9896, demand = 5\<rparr>,
      \<lparr>customer_id = ''6'', latitude = 4.4142, longitude = 114.0127, demand = 8\<rparr>,
      \<lparr>customer_id = ''7'', latitude = 4.4804, longitude = 114.0734, demand = 3\<rparr>,
      \<lparr>customer_id = ''8'', latitude = 4.3818, longitude = 114.2034, demand = 6\<rparr>,
      \<lparr>customer_id = ''9'', latitude = 4.4935, longitude = 114.1828, demand = 5\<rparr>,
      \<lparr>customer_id = ''10'', latitude = 4.4932, longitude = 114.1322, demand = 8\<rparr>]"

text \<open>A cost matrix over four customers where two merged routes tie.\<close>

definition matrix_tie :: "real list list" where
  "matrix_tie =
     [[0, 10, 1, 10, 10],
      [10, 0, 10, 10, 10],
      [1, 10, 0, 10, 10],
      [10, 10, 10, 0, 10],
      [10, 10, 10, 10, 0]]"

text \<open>Three customers on one meridian (so that the distances are rational).\<close>

definition locations_line :: "CustomerLocation list" where
  "locations_line =
     [\<lparr>customer_id = ''Depot'', latitude = 0, longitude = 0, demand = 0\<rparr>,
      \<lparr>customer_id = ''1'', latitude = 0.01, longitude = 0, demand = 5\<rparr>,
      \<lparr>customer_id = ''2'', latitude = 0.02, longitude = 0, demand = 8\<rparr>,
      \<lparr>customer_id = ''3'', latitude = - 0.03, longitude = 0, demand = 15\<rparr>]"



text \<open>The cost matrix of \<open>locations_line\<close>, the state after its initialisation, and
  the state after the merge of customers 1 and 2.\<close>

definition matrix_line :: "real list list" where
  "matrix_line = [[0, 1, 2, 3], [1, 0, 1, 4], [2, 1, 0, 5], [3, 4, 5, 0]]"

definition state_line :: algorithm where
  "state_line =
     \<lparr>locations = locations_line, vehicle_types = vehicle_types_data,
      cost_matrix = matrix_line,
      routes = [([1], \<lparr>route = [1], vehicle = Some type_A\<rparr>),
                ([2], \<lparr>route = [2], vehicle = Some type_A\<rparr>),
                ([3], \<lparr>route = [3], vehicle = Some type_A\<rparr>)]\<rparr>"

definition state_line_merged :: algorithm where
  "state_line_merged =
     \<lparr>locations = locations_line, vehicle_types = vehicle_types_data,
      cost_matrix = matrix_line,
      routes = [([3], \<lparr>route = [3], vehicle = Some type_A\<rparr>),
                ([1, 2], \<lparr>route = [1, 2], vehicle = Some type_A\<rparr>)]\<rparr>"

text \<open>Two customers whose joint demand no vehicle of the catalog covers, and the state
  after the initialisation.\<close>

definition locations_pair :: "CustomerLocation list" where
  "locations_pair =
     [\<lparr>customer_id = ''Depot'', latitude = 4.4184, longitude = 114.0932, demand = 0\<rparr>,
      \<lparr>customer_id = ''1'', latitude = 4.3555, longitude = 113.9777, demand = 20\<rparr>,
      \<lparr>customer_id = ''2'', latitude = 4.3976, longitude = 114.0049, demand = 15\<rparr>]"

definition state_pair :: algorithm where
  "state_pair =
     \<lparr>locations = locations_pair, vehicle_types = vehicle_types_data,
      cost_matrix = calculate_cost_matrix locations_pair,
      routes = [([1], \<lparr>route = [1], vehicle = Some type_A\<rparr>),
                ([2], \<lparr>route = [2], vehicle = Some type_A\<rparr>)]\<rparr>"



section \<open>The vehicle selector\<close>

lemma find_filter_conj: "find P (filter Q xs) = find (\<lambda>x. Q x \<and> P x) xs"
  by (induction xs) auto

lemma find_Some_filter: "find P xs = Some v \<Longrightarrow> Q v \<Longrightarrow> find P (filter Q xs) = Some v"
  by (induction xs) (auto split: if_splits)

lemma find_sorted_least:
  assumes "sorted (map f xs)" and "find P xs = Some v" and "w \<in> set xs" and "P w"
  shows "f v \<le> f w"
  using assms
proof (induction xs)
  case Nil
  then show ?case by simp
next
  case (Cons x xs)
  then show ?case by (auto split: if_splits)
qed

lemma find_smallest_vehicle_first:
  assumes "find_smallest_vehicle vts d = Some v"
  shows "find (\<lambda>w. cost_per_km w = cost_per_km v \<and> d \<le> capacity w) vts = Some v"
proof -
  let ?s = "sort_key cost_per_km vts"
  from assms have f: "find (\<lambda>w. d \<le> capacity w) ?s = Some v"
    by (simp add: find_smallest_vehicle_def)
  have "find (\<lambda>w. d \<le> capacity w) (filter (\<lambda>w. cost_per_km w = cost_per_km v) ?s) = Some v"
    using f by (rule find_Some_filter) simp
  then have "find (\<lambda>w. d \<le> capacity w) (filter (\<lambda>w. cost_per_km w = cost_per_km v) vts) = Some v"
    by (simp only: sort_key_stable)
  then show ?thesis by (simp only: find_filter_conj)
qed

lemma find_smallest_vehicle_None:
  "find_smallest_vehicle vts d = None \<longleftrightarrow> (\<forall>v\<in>set vts. capacity v < d)"
  by (auto simp: find_smallest_vehicle_def find_None_iff)

lemma find_smallest_vehicle_least:
  assumes "find_smallest_vehicle vts d = Some v" and "w \<in> set vts" and "d \<le> capacity w"
  shows "cost_per_km v \<le> cost_per_km w"
proof -
  let ?s = "sort_key cost_per_km vts"
  from assms(1) have f: "find (\<lambda>w. d \<le> capacity w) ?s = Some v"
    by (simp add: find_smallest_vehicle_def)
  have "sorted (map cost_per_km ?s)" by simp
  moreover have "w \<in> set ?s" using assms(2) by simp
  ultimately show ?thesis
    using f assms(3) find_sorted_least[of cost_per_km ?s "\<lambda>w. d \<le> capacity w" v w] by simp
qed

lemma find_smallest_vehicle_Some:
  assumes "find_smallest_vehicle vts d = Some v"
  shows "v \<in> set vts" and "d \<le> capacity v"
proof -
  from assms have f: "find (\<lambda>w. d \<le> capacity w) (sort_key cost_per_km vts) = Some v"
    by (simp add: find_smallest_vehicle_def)
  then show "d \<le> capacity v" by (auto simp: find_Some_iff)
  from f obtain i where "i < length (sort_key cost_per_km vts)" "v = sort_key cost_per_km vts ! i"
    by (auto simp: find_Some_iff)
  then have "v \<in> set (sort_key cost_per_km vts)" by (simp only: nth_mem)
  then show "v \<in> set vts" by simp
qed

text \<open>
  Claim C7.  For every demand and every catalog, \<open>find_smallest_vehicle\<close> returns
  \<open>None\<close> exactly when no vehicle of the catalog has a capacity that covers the
  demand; otherwise it returns a vehicle of the catalog that covers the demand, whose
  cost per kilometre is minimal among the vehicles that cover it, and which is the
  first such vehicle in catalog order: every covering vehicle before it in the catalog
  costs strictly more.  It has no failing case.
\<close>

theorem find_smallest_vehicle_selects:
  "(case find_smallest_vehicle vts d of
      None \<Rightarrow> \<forall>v\<in>set vts. capacity v < d
    | Some v \<Rightarrow> \<exists>k<length vts. vts ! k = v \<and> d \<le> capacity v \<and>
        (\<forall>j<length vts. d \<le> capacity (vts ! j) \<longrightarrow> cost_per_km v \<le> cost_per_km (vts ! j)) \<and>
        (\<forall>j<k. d \<le> capacity (vts ! j) \<longrightarrow> cost_per_km v < cost_per_km (vts ! j)))"
proof (cases "find_smallest_vehicle vts d")
  case None
  then have "\<forall>v\<in>set vts. capacity v < d" by (simp add: find_smallest_vehicle_None)
  with None show ?thesis by simp
next
  case (Some v)
  from find_smallest_vehicle_first[OF Some]
  obtain k where k: "k < length vts" "vts ! k = v"
    and before: "\<forall>j<k. \<not> (cost_per_km (vts ! j) = cost_per_km v \<and> d \<le> capacity (vts ! j))"
    by (auto simp: find_Some_iff)
  have least: "\<forall>j<length vts. d \<le> capacity (vts ! j) \<longrightarrow> cost_per_km v \<le> cost_per_km (vts ! j)"
    using find_smallest_vehicle_least[OF Some] by simp
  have "\<forall>j<k. d \<le> capacity (vts ! j) \<longrightarrow> cost_per_km v < cost_per_km (vts ! j)"
  proof (intro allI impI)
    fix j assume j: "j < k" "d \<le> capacity (vts ! j)"
    with k least have "cost_per_km v \<le> cost_per_km (vts ! j)" by simp
    moreover from before j have "cost_per_km (vts ! j) \<noteq> cost_per_km v" by blast
    ultimately show "cost_per_km v < cost_per_km (vts ! j)" by simp
  qed
  with k least find_smallest_vehicle_Some[OF Some] Some show ?thesis by auto
qed

theorem find_smallest_vehicle_selects_witness:
  "find_smallest_vehicle vehicle_types_tied 26 =
     Some \<lparr>name = ''First'', capacity = 30, cost_per_km = 3 / 2\<rparr> \<and>
   vehicle_types_tied ! 1 = \<lparr>name = ''First'', capacity = 30, cost_per_km = 3 / 2\<rparr> \<and>
   26 \<le> capacity (vehicle_types_tied ! 0) \<and>
   3 / 2 < cost_per_km (vehicle_types_tied ! 0) \<and>
   26 \<le> capacity (vehicle_types_tied ! 3) \<and>
   3 / 2 \<le> cost_per_km (vehicle_types_tied ! 3) \<and>
   find_smallest_vehicle vehicle_types_data 31 = None \<and>
   capacity (vehicle_types_data ! 0) < 31 \<and> capacity (vehicle_types_data ! 1) < 31"
proof -
  have s: "find_smallest_vehicle vehicle_types_tied 26 =
      Some \<lparr>name = ''First'', capacity = 30, cost_per_km = 3 / 2\<rparr>"
    by (simp add: find_smallest_vehicle_def vehicle_types_tied_def)
  have n: "find_smallest_vehicle vehicle_types_data 31 = None"
    by (simp add: find_smallest_vehicle_def vehicle_types_data_def)
  show ?thesis
    using find_smallest_vehicle_selects[of vehicle_types_tied 26]
      find_smallest_vehicle_selects[of vehicle_types_data 31]
    by (simp add: s n) (simp add: vehicle_types_tied_def vehicle_types_data_def)
qed

section \<open>Route distances and the merge evaluator\<close>

lemma bind_result_Inr [simp]: "bind_result (Inr x) f = f x"
  by (simp add: bind_result_def)

lemma bind_result_Inl [simp]: "bind_result (Inl e) f = Inl e"
  by (simp add: bind_result_def)

lemma bind_result_eq_Inr:
  "bind_result m f = Inr y \<longleftrightarrow> (\<exists>x. m = Inr x \<and> f x = Inr y)"
  by (cases m) simp_all

lemma matrix_at_in_range:
  "square_matrix m \<Longrightarrow> i < length m \<Longrightarrow> j < length m \<Longrightarrow> matrix_at m i j = Inr (m ! i ! j)"
  by (simp add: matrix_at_def square_matrix_def)

lemma route_legs_in_range:
  "square_matrix m \<Longrightarrow> in_range m r \<Longrightarrow> \<exists>d. route_legs m r acc = Inr d"
proof (induction m r acc rule: route_legs.induct)
  case (1 m a b rest distance)
  then show ?case by (simp add: matrix_at_in_range in_range_def)
qed simp_all

lemma calculate_route_distance_in_range:
  assumes "square_matrix m" and "in_range m r" and "r \<noteq> []"
  shows "\<exists>d. calculate_route_distance m r = Inr d"
proof -
  from assms obtain d where d: "route_legs m r 0 = Inr d"
    using route_legs_in_range by blast
  from assms have h: "hd r < length m" and l: "last r < length m"
    by (simp_all add: in_range_def)
  from h have z: "0 < length m" by (cases m) simp_all
  show ?thesis
    using assms(1,3) d h l z by (simp add: calculate_route_distance_def matrix_at_in_range)
qed

lemma select_best_mem:
  "select_best m cs md best = Inr res \<Longrightarrow> res = best \<or> (\<exists>c\<in>set cs. res = Some c)"
proof (induction cs arbitrary: md best)
  case Nil
  then show ?case by simp
next
  case (Cons c cs)
  then show ?case
    by (fastforce simp: bind_result_eq_Inr split: if_splits)
qed

lemma select_best_first_min:
  assumes "\<forall>c\<in>set cs. calculate_route_distance m c = Inr (D c)"
  shows "\<exists>res. select_best m cs md best = Inr res \<and>
     ((res = best \<and> (\<forall>c\<in>set cs. \<not> less_than_min (D c) md)) \<or>
      (\<exists>k<length cs. res = Some (cs ! k) \<and> less_than_min (D (cs ! k)) md \<and>
          (\<forall>l<length cs. D (cs ! k) \<le> D (cs ! l)) \<and> (\<forall>l<k. D (cs ! k) < D (cs ! l))))"
  using assms
proof (induction cs arbitrary: md best)
  case Nil
  then show ?case by simp
next
  case (Cons c cs)
  have dc: "calculate_route_distance m c = Inr (D c)" using Cons.prems by simp
  have rest: "\<forall>c\<in>set cs. calculate_route_distance m c = Inr (D c)" using Cons.prems by simp
  show ?case
  proof (cases "less_than_min (D c) md")
    case True
    from Cons.IH[OF rest, of "Some (D c)" "Some c"] obtain res where
      r: "select_best m cs (Some (D c)) (Some c) = Inr res" and
      alt: "(res = Some c \<and> (\<forall>c'\<in>set cs. \<not> less_than_min (D c') (Some (D c)))) \<or>
        (\<exists>k<length cs. res = Some (cs ! k) \<and> less_than_min (D (cs ! k)) (Some (D c)) \<and>
          (\<forall>l<length cs. D (cs ! k) \<le> D (cs ! l)) \<and> (\<forall>l<k. D (cs ! k) < D (cs ! l)))"
      by blast
    have sb: "select_best m (c # cs) md best = Inr res" using dc True r by simp
    from alt show ?thesis
    proof
      assume a: "res = Some c \<and> (\<forall>c'\<in>set cs. \<not> less_than_min (D c') (Some (D c)))"
      then have "\<forall>l<length (c # cs). D c \<le> D ((c # cs) ! l)"
        by (auto simp: less_than_min_def nth_Cons not_less split: nat.splits)
      with a True sb show ?thesis
        by (intro exI[of _ res] conjI disjI2 exI[of _ 0]) simp_all
    next
      assume "\<exists>k<length cs. res = Some (cs ! k) \<and> less_than_min (D (cs ! k)) (Some (D c)) \<and>
          (\<forall>l<length cs. D (cs ! k) \<le> D (cs ! l)) \<and> (\<forall>l<k. D (cs ! k) < D (cs ! l))"
      then obtain k where k: "k < length cs" "res = Some (cs ! k)" "D (cs ! k) < D c"
        "\<forall>l<length cs. D (cs ! k) \<le> D (cs ! l)" "\<forall>l<k. D (cs ! k) < D (cs ! l)"
        by (auto simp: less_than_min_def)
      have 1: "less_than_min (D (cs ! k)) md"
        using True k(3) by (auto simp: less_than_min_def split: option.splits)
      have 2: "\<forall>l<length (c # cs). D (cs ! k) \<le> D ((c # cs) ! l)"
        using k(3,4) by (auto simp: nth_Cons split: nat.splits)
      have 3: "\<forall>l<Suc k. D (cs ! k) < D ((c # cs) ! l)"
        using k(3,5) by (auto simp: nth_Cons split: nat.splits)
      from sb k(1,2) 1 2 3 show ?thesis
        by (intro exI[of _ res] conjI disjI2 exI[of _ "Suc k"]) simp_all
    qed
  next
    case False
    from Cons.IH[OF rest, of md best] obtain res where
      r: "select_best m cs md best = Inr res" and
      alt: "(res = best \<and> (\<forall>c'\<in>set cs. \<not> less_than_min (D c') md)) \<or>
        (\<exists>k<length cs. res = Some (cs ! k) \<and> less_than_min (D (cs ! k)) md \<and>
          (\<forall>l<length cs. D (cs ! k) \<le> D (cs ! l)) \<and> (\<forall>l<k. D (cs ! k) < D (cs ! l)))"
      by blast
    have sb: "select_best m (c # cs) md best = Inr res" using dc False r by simp
    from alt show ?thesis
    proof
      assume "res = best \<and> (\<forall>c'\<in>set cs. \<not> less_than_min (D c') md)"
      with False sb show ?thesis by simp
    next
      assume "\<exists>k<length cs. res = Some (cs ! k) \<and> less_than_min (D (cs ! k)) md \<and>
          (\<forall>l<length cs. D (cs ! k) \<le> D (cs ! l)) \<and> (\<forall>l<k. D (cs ! k) < D (cs ! l))"
      then obtain k where k: "k < length cs" "res = Some (cs ! k)" "less_than_min (D (cs ! k)) md"
        "\<forall>l<length cs. D (cs ! k) \<le> D (cs ! l)" "\<forall>l<k. D (cs ! k) < D (cs ! l)"
        by auto
      have lt: "D (cs ! k) < D c"
        using False k(3) by (auto simp: less_than_min_def split: option.splits)
      have 2: "\<forall>l<length (c # cs). D (cs ! k) \<le> D ((c # cs) ! l)"
        using lt k(4) by (auto simp: nth_Cons split: nat.splits)
      have 3: "\<forall>l<Suc k. D (cs ! k) < D ((c # cs) ! l)"
        using lt k(5) by (auto simp: nth_Cons split: nat.splits)
      from sb k(1,2,3) 2 3 show ?thesis
        by (intro exI[of _ res] conjI disjI2 exI[of _ "Suc k"]) simp_all
    qed
  qed
qed

lemma merged_routes_in_range:
  assumes "in_range m route1" and "in_range m route2" and "route1 \<noteq> []"
    and "c \<in> set (merged_routes route1 route2)"
  shows "in_range m c \<and> c \<noteq> []"
  using assms by (auto simp: merged_routes_def in_range_def)

lemma combine_routes_result:
  assumes "square_matrix m" and "in_range m route1" and "in_range m route2"
    and "route1 \<noteq> []"
  shows "\<exists>ds k. map (calculate_route_distance m) (merged_routes route1 route2) = map Inr ds \<and>
      k < 4 \<and> combine_routes m route1 route2 = Inr (Some (merged_routes route1 route2 ! k)) \<and>
      (\<forall>l<4. ds ! k \<le> ds ! l) \<and> (\<forall>l<k. ds ! k < ds ! l)"
proof -
  let ?cs = "merged_routes route1 route2"
  define D where "D = (\<lambda>c. projr (calculate_route_distance m c))"
  have len: "length ?cs = 4" by (simp add: merged_routes_def)
  have dist: "\<forall>c\<in>set ?cs. calculate_route_distance m c = Inr (D c)"
  proof
    fix c assume "c \<in> set ?cs"
    then have "in_range m c \<and> c \<noteq> []"
      using assms(2,3,4) by (rule merged_routes_in_range[rotated 3])
    then obtain d where "calculate_route_distance m c = Inr d"
      using calculate_route_distance_in_range[OF assms(1)] by blast
    then show "calculate_route_distance m c = Inr (D c)" by (simp add: D_def)
  qed
  then have ds: "map (calculate_route_distance m) ?cs = map Inr (map D ?cs)" by simp
  from select_best_first_min[OF dist, of None None] obtain res where
    r: "select_best m ?cs None None = Inr res" and
    alt: "(res = None \<and> (\<forall>c\<in>set ?cs. \<not> less_than_min (D c) None)) \<or>
      (\<exists>k<length ?cs. res = Some (?cs ! k) \<and> less_than_min (D (?cs ! k)) None \<and>
          (\<forall>l<length ?cs. D (?cs ! k) \<le> D (?cs ! l)) \<and> (\<forall>l<k. D (?cs ! k) < D (?cs ! l)))"
    by blast
  have "\<not> (\<forall>c\<in>set ?cs. \<not> less_than_min (D c) None)"
    by (auto simp: less_than_min_def merged_routes_def)
  with alt obtain k where k: "k < length ?cs" "res = Some (?cs ! k)"
    "\<forall>l<length ?cs. D (?cs ! k) \<le> D (?cs ! l)" "\<forall>l<k. D (?cs ! k) < D (?cs ! l)"
    by blast
  have a: "\<forall>l<4. map D ?cs ! k \<le> map D ?cs ! l" using k(1,3) len by simp
  have b: "\<forall>l<k. map D ?cs ! k < map D ?cs ! l" using k(1,4) len by simp
  have c: "combine_routes m route1 route2 = Inr (Some (?cs ! k))"
    using r k(2) by (simp add: combine_routes_def)
  from ds k(1) len a b c show ?thesis by (intro exI[of _ "map D ?cs"] exI[of _ k]) simp
qed

lemma combine_routes_mset:
  assumes "combine_routes m route1 route2 = Inr (Some best)"
  shows "mset best = mset route1 + mset route2"
proof -
  from assms have "select_best m (merged_routes route1 route2) None None = Inr (Some best)"
    by (simp add: combine_routes_def)
  from select_best_mem[OF this] have "best \<in> set (merged_routes route1 route2)" by auto
  then show ?thesis by (auto simp: merged_routes_def)
qed


lemma matrix_tie_square: "square_matrix matrix_tie"
  by (simp add: square_matrix_def matrix_tie_def)

lemma matrix_tie_distances:
  "calculate_route_distance matrix_tie [Suc 0, 2, 3, 4] = Inr 50"
  "calculate_route_distance matrix_tie [3, 4, Suc 0, 2] = Inr 41"
  "calculate_route_distance matrix_tie [2, Suc 0, 3, 4] = Inr 41"
  "calculate_route_distance matrix_tie [Suc 0, 2, 4, 3] = Inr 50"
  by (simp_all add: calculate_route_distance_def matrix_at_def matrix_tie_def)


text \<open>
  Claim C10.  For two non-empty routes whose indices are rows of a square cost matrix,
  \<open>combine_routes\<close> returns a sequence that is a permutation of \<open>route1 + route2\<close>:
  the same customer indices with the same multiplicities.
\<close>

theorem combine_routes_permutation:
  assumes "square_matrix m" and "in_range m route1" and "in_range m route2"
    and "route1 \<noteq> []" and "route2 \<noteq> []"
  shows "\<exists>best. combine_routes m route1 route2 = Inr (Some best) \<and>
    mset best = mset (route1 @ route2)"
proof -
  from combine_routes_result[OF assms(1-4)] obtain k where
    "combine_routes m route1 route2 = Inr (Some (merged_routes route1 route2 ! k))"
    by blast
  then show ?thesis using combine_routes_mset by fastforce
qed

theorem combine_routes_permutation_witness:
  "square_matrix matrix_tie \<and> in_range matrix_tie [1, 2] \<and> in_range matrix_tie [3, 4] \<and>
   combine_routes matrix_tie [1, 2] [3, 4] = Inr (Some [3, 4, 1, 2]) \<and>
   mset [3, 4, 1, 2] = mset ([1, 2] @ [3, 4 :: nat])"
proof -
  have r: "in_range matrix_tie [1, 2]" "in_range matrix_tie [3, 4]"
    by (simp_all add: in_range_def matrix_tie_def)
  have c: "combine_routes matrix_tie [1, 2] [3, 4] = Inr (Some [3, 4, 1, 2])"
    by (simp add: combine_routes_def merged_routes_def matrix_tie_distances less_than_min_def)
  from combine_routes_permutation[OF matrix_tie_square r]
  have "mset [3, 4, 1, 2] = mset ([1, 2] @ [3, 4 :: nat])" by (simp add: c)
  with matrix_tie_square r c show ?thesis by simp
qed

section \<open>The cost matrix\<close>

lemma calculate_distance_self: "calculate_distance a a = 0"
  by (simp add: calculate_distance_def)

lemma calculate_distance_sym: "calculate_distance a b = calculate_distance b a"
  by (simp add: calculate_distance_def power2_commute)

lemma length_calculate_cost_matrix: "length (calculate_cost_matrix locs) = length locs"
  by (simp add: calculate_cost_matrix_def Let_def)

lemma calculate_cost_matrix_nth:
  "i < length locs \<Longrightarrow> j < length locs \<Longrightarrow>
   calculate_cost_matrix locs ! i ! j = calculate_distance (locs ! i) (locs ! j)"
  by (simp add: calculate_cost_matrix_def Let_def)

lemma calculate_cost_matrix_row:
  "i < length locs \<Longrightarrow> length (calculate_cost_matrix locs ! i) = length locs"
  by (simp add: calculate_cost_matrix_def Let_def)

lemma square_calculate_cost_matrix: "square_matrix (calculate_cost_matrix locs)"
  by (auto simp: square_matrix_def calculate_cost_matrix_def Let_def)

text \<open>
  Claim C8.  For every list of locations (the depot followed by the customers),
  \<open>calculate_cost_matrix\<close> returns a square matrix with one row and one column per
  location, that is of size 1 + the number of customers; its entry \<open>(i, j)\<close> is
  \<open>100 * sqrt ((lat_i - lat_j)\<^sup>2 + (lon_i - lon_j)\<^sup>2)\<close>; its diagonal is zero and it is
  symmetric.  (Over the real numbers, which stand for the floating-point numbers.)
\<close>

theorem calculate_cost_matrix_symmetric:
  "length (calculate_cost_matrix locs) = length locs \<and>
   (\<forall>depot customers. locs = depot # customers \<longrightarrow>
      length (calculate_cost_matrix locs) = 1 + length customers) \<and>
   (\<forall>i<length locs.
      length (calculate_cost_matrix locs ! i) = length locs \<and>
      calculate_cost_matrix locs ! i ! i = 0 \<and>
      (\<forall>j<length locs.
         calculate_cost_matrix locs ! i ! j =
           100 * sqrt ((latitude (locs ! i) - latitude (locs ! j))\<^sup>2 +
                       (longitude (locs ! i) - longitude (locs ! j))\<^sup>2) \<and>
         calculate_cost_matrix locs ! i ! j = calculate_cost_matrix locs ! j ! i))"
proof (intro conjI allI impI)
  show "length (calculate_cost_matrix locs) = length locs"
    by (rule length_calculate_cost_matrix)
next
  fix depot customers assume "locs = depot # customers"
  then show "length (calculate_cost_matrix locs) = 1 + length customers"
    by (simp add: length_calculate_cost_matrix)
next
  fix i assume "i < length locs"
  then show "length (calculate_cost_matrix locs ! i) = length locs"
    by (rule calculate_cost_matrix_row)
next
  fix i assume "i < length locs"
  then show "calculate_cost_matrix locs ! i ! i = 0"
    by (simp add: calculate_cost_matrix_nth calculate_distance_self)
next
  fix i j assume "i < length locs" "j < length locs"
  then show "calculate_cost_matrix locs ! i ! j =
      100 * sqrt ((latitude (locs ! i) - latitude (locs ! j))\<^sup>2 +
                  (longitude (locs ! i) - longitude (locs ! j))\<^sup>2)"
    by (simp add: calculate_cost_matrix_nth calculate_distance_def)
next
  fix i j assume "i < length locs" "j < length locs"
  then show "calculate_cost_matrix locs ! i ! j = calculate_cost_matrix locs ! j ! i"
    by (simp add: calculate_cost_matrix_nth calculate_distance_sym)
qed

lemma length_locations_data: "length locations_data = 11"
  by (simp add: locations_data_def)

theorem calculate_cost_matrix_symmetric_witness:
  "length (calculate_cost_matrix locations_data) = 11 \<and>
   length (calculate_cost_matrix locations_data ! 1) = 11 \<and>
   calculate_cost_matrix locations_data ! 1 ! 1 = 0 \<and>
   calculate_cost_matrix locations_data ! 1 ! 2 =
     100 * sqrt ((4.3555 - 4.3976)\<^sup>2 + (113.9777 - 114.0049)\<^sup>2) \<and>
   calculate_cost_matrix locations_data ! 1 ! 2 = calculate_cost_matrix locations_data ! 2 ! 1"
proof -
  have l: "locations_data ! 1 = \<lparr>customer_id = ''1'', latitude = 4.3555, longitude = 113.9777, demand = 5\<rparr>"
    "locations_data ! 2 = \<lparr>customer_id = ''2'', latitude = 4.3976, longitude = 114.0049, demand = 8\<rparr>"
    by (simp_all add: locations_data_def)
  have "(1::nat) < 11" "(2::nat) < 11" by simp_all
  with calculate_cost_matrix_symmetric[of locations_data]
  have "length (calculate_cost_matrix locations_data) = 11 \<and>
   length (calculate_cost_matrix locations_data ! 1) = 11 \<and>
   calculate_cost_matrix locations_data ! 1 ! 1 = 0 \<and>
   calculate_cost_matrix locations_data ! 1 ! 2 =
     100 * sqrt ((latitude (locations_data ! 1) - latitude (locations_data ! 2))\<^sup>2 +
                       (longitude (locations_data ! 1) - longitude (locations_data ! 2))\<^sup>2) \<and>
   calculate_cost_matrix locations_data ! 1 ! 2 = calculate_cost_matrix locations_data ! 2 ! 1"
    unfolding length_locations_data by blast
  then show ?thesis unfolding l by simp
qed

section \<open>The savings list\<close>

lemma collect_map_Inr: "collect (map Inr xs) = Inr xs"
  by (induction xs) simp_all

lemma saving_entry_in_range:
  assumes "square_matrix m" and "i + 1 < length m" and "j + 1 < length m"
  shows "saving_entry m i j =
    Inr (m ! 0 ! (i + 1) + m ! 0 ! (j + 1) - m ! (i + 1) ! (j + 1), i + 1, j + 1)"
proof -
  from assms(2) have "0 < length m" by (cases m) simp_all
  with assms show ?thesis by (simp add: saving_entry_def matrix_at_in_range)
qed

lemma compute_savings_in_range:
  assumes "square_matrix m" and "n \<le> length m - 1"
  shows "compute_savings m n = Inr (savings_enum m 0 n)"
proof -
  have row: "map (\<lambda>j. saving_entry m i j) [i + 1..<n] =
      map Inr (map (\<lambda>j. (m ! 0 ! (i + 1) + m ! 0 ! (j + 1) - m ! (i + 1) ! (j + 1),
                        i + 1, j + 1)) [i + 1..<n])" if "i < n" for i
  proof -
    have "saving_entry m i j =
        Inr (m ! 0 ! (i + 1) + m ! 0 ! (j + 1) - m ! (i + 1) ! (j + 1), i + 1, j + 1)"
      if "j \<in> set [i + 1..<n]" for j
    proof -
      from that \<open>i < n\<close> assms(2) have "i + 1 < length m" "j + 1 < length m" by auto
      with assms(1) show ?thesis by (rule saving_entry_in_range)
    qed
    then show ?thesis by simp
  qed
  have "map (\<lambda>i. map (\<lambda>j. saving_entry m i j) [i + 1..<n]) [0..<n] =
      map (\<lambda>i. map Inr (map (\<lambda>j. (m ! 0 ! (i + 1) + m ! 0 ! (j + 1) - m ! (i + 1) ! (j + 1),
                                   i + 1, j + 1)) [i + 1..<n])) [0..<n]"
    by (rule map_cong[OF refl], rule row) simp
  then have "concat (map (\<lambda>i. map (\<lambda>j. saving_entry m i j) [i + 1..<n]) [0..<n]) =
      concat (map (\<lambda>i. map Inr (map (\<lambda>j. (m ! 0 ! (i + 1) + m ! 0 ! (j + 1) -
         m ! (i + 1) ! (j + 1), i + 1, j + 1)) [i + 1..<n])) [0..<n])"
    by (rule arg_cong)
  also have "\<dots> = map Inr (savings_enum m 0 n)"
    by (simp add: savings_enum_def map_concat comp_def)
  finally have "concat (map (\<lambda>i. map (\<lambda>j. saving_entry m i j) [i + 1..<n]) [0..<n]) =
      map Inr (savings_enum m 0 n)" .
  then show ?thesis by (simp add: compute_savings_def collect_map_Inr)
qed














section \<open>The merge loop\<close>

subsection \<open>The cases of one iteration\<close>

lemma evaluate_merge_cases:
  assumes "evaluate_merge self ki kj info_i info_j cv = Inr self'"
  obtains (unchanged) "self' = self"
  | (merged) best di dj ci cj db where
      "combine_routes (cost_matrix self) (route info_i) (route info_j) = Inr (Some best)"
      "calculate_route_distance (cost_matrix self) (route info_i) = Inr di"
      "calculate_route_distance (cost_matrix self) (route info_j) = Inr dj"
      "vehicle_cost_per_km info_i = Inr ci"
      "vehicle_cost_per_km info_j = Inr cj"
      "calculate_route_distance (cost_matrix self) best = Inr db"
      "db * cost_per_km cv < di * ci + dj * cj"
      "self' = self\<lparr>routes := AList.update best \<lparr>route = best, vehicle = Some cv\<rparr>
                 (AList.delete kj (AList.delete ki (routes self)))\<rparr>"
  using assms
  unfolding evaluate_merge_def
  by (auto simp: bind_result_eq_Inr best_route_distance_def Let_def
      split: option.splits if_splits prod.splits)

lemma try_merge_cases:
  assumes "try_merge self ki kj = Inr self'"
  obtains (unchanged) "self' = self"
  | (merged) info_i info_j total cv where
      "map_of (routes self) ki = Some info_i"
      "map_of (routes self) kj = Some info_j"
      "demand_sum (locations self) (route info_i @ route info_j) = Inr total"
      "find_smallest_vehicle (vehicle_types self) total = Some cv"
      "evaluate_merge self ki kj info_i info_j cv = Inr self'"
  using assms
  unfolding try_merge_def
  by (auto simp: bind_result_eq_Inr routes_get_def split: option.splits)

lemma merge_step_cases:
  assumes "merge_step self (s, i, j) = Inr self'"
  obtains (unchanged) "self' = self"
  | (merged) ki kj where
      "find_route_key (routes self) i = Some ki"
      "find_route_key (routes self) j = Some kj"
      "ki \<noteq> []" "kj \<noteq> []" "ki \<noteq> kj"
      "try_merge self ki kj = Inr self'"
  using assms
  unfolding merge_step_def
  by (auto split: option.splits if_splits)

lemma merge_step_merged:
  assumes "merge_step self (s, i, j) = Inr self'"
  obtains (unchanged) "self' = self"
  | (merged) ki kj info_i info_j total cv best di dj ci cj db where
      "find_route_key (routes self) i = Some ki"
      "find_route_key (routes self) j = Some kj"
      "ki \<noteq> []" "kj \<noteq> []" "ki \<noteq> kj"
      "map_of (routes self) ki = Some info_i"
      "map_of (routes self) kj = Some info_j"
      "demand_sum (locations self) (route info_i @ route info_j) = Inr total"
      "find_smallest_vehicle (vehicle_types self) total = Some cv"
      "combine_routes (cost_matrix self) (route info_i) (route info_j) = Inr (Some best)"
      "calculate_route_distance (cost_matrix self) (route info_i) = Inr di"
      "calculate_route_distance (cost_matrix self) (route info_j) = Inr dj"
      "vehicle_cost_per_km info_i = Inr ci"
      "vehicle_cost_per_km info_j = Inr cj"
      "calculate_route_distance (cost_matrix self) best = Inr db"
      "db * cost_per_km cv < di * ci + dj * cj"
      "self' = self\<lparr>routes := AList.update best \<lparr>route = best, vehicle = Some cv\<rparr>
                 (AList.delete kj (AList.delete ki (routes self)))\<rparr>"
  using assms
proof (cases rule: merge_step_cases)
  case unchanged
  then show ?thesis by (rule that(1))
next
  case (merged ki kj)
  from merged(6) show ?thesis
  proof (cases rule: try_merge_cases)
    case unchanged
    then show ?thesis by (rule that(1))
  next
    case tm: (merged info_i info_j total cv)
    from tm(5) show ?thesis
    proof (cases rule: evaluate_merge_cases)
      case unchanged
      then show ?thesis by (rule that(1))
    next
      case em: (merged best di dj ci cj db)
      show ?thesis
        by (rule that(2)[OF merged(1-5) tm(1-4) em])
    qed
  qed
qed

subsection \<open>Replacing two entries of the dictionary by one\<close>

lemma update_fresh: "k \<notin> fst ` set al \<Longrightarrow> AList.update k v al = al @ [(k, v)]"
  by (induction al) auto

lemma mset_delete_entry:
  "distinct (map fst rs) \<Longrightarrow> (k, v) \<in> set rs \<Longrightarrow>
   mset rs = add_mset (k, v) (mset (AList.delete k rs))"
proof (induction rs)
  case Nil
  then show ?case by simp
next
  case (Cons e rs)
  show ?case
  proof (cases "fst e = k")
    case True
    with Cons.prems have "e = (k, v)" by (cases e) (auto simp: image_iff)
    moreover from True Cons.prems(1) have "k \<notin> fst ` set rs" by simp
    ultimately show ?thesis by (simp add: AList.delete_id)
  next
    case False
    with Cons show ?thesis by (cases e) auto
  qed
qed

lemma keys_mset: "mset (concat (map fst rs)) = (\<Sum>e\<in>#mset rs. mset (fst e))"
  by (induction rs) simp_all

lemma consistent_keys_distinct:
  assumes "routes_consistent rs"
  shows "distinct (map fst rs)"
proof -
  from assms have d: "distinct (concat (map fst rs))" and ne: "[] \<notin> set (map fst rs)"
    by (auto simp: routes_consistent_def)
  from d have "distinct (removeAll [] (map fst rs))" by (simp add: distinct_concat_iff)
  with ne show ?thesis by simp
qed

lemma consistent_routes_are_keys:
  assumes "routes_consistent rs"
  shows "map (\<lambda>(key, info). route info) rs = map fst rs"
  using assms by (auto simp: routes_consistent_def)

lemma replace_two_by_one:
  assumes c: "routes_consistent rs"
    and ne: "ki \<noteq> kj"
    and i: "map_of rs ki = Some info_i" and j: "map_of rs kj = Some info_j"
    and b: "mset best = mset (route info_i) + mset (route info_j)"
  shows "mset rs = mset (AList.delete kj (AList.delete ki rs)) + {#(ki, info_i), (kj, info_j)#}"
    and "AList.update best v (AList.delete kj (AList.delete ki rs)) =
           AList.delete kj (AList.delete ki rs) @ [(best, v)]"
    and "mset (concat (map fst (AList.delete kj (AList.delete ki rs) @ [(best, v)]))) =
           mset (concat (map fst rs))"
    and "best \<noteq> []"
proof -
  let ?r0 = "AList.delete kj (AList.delete ki rs)"
  have dk: "distinct (map fst rs)" using c by (rule consistent_keys_distinct)
  have ei: "(ki, info_i) \<in> set rs" using i by (rule map_of_SomeD)
  have ej: "(kj, info_j) \<in> set rs" using j by (rule map_of_SomeD)
  from ei ej c have ri: "route info_i = ki" and rj: "route info_j = kj"
    and nei: "ki \<noteq> []" by (auto simp: routes_consistent_def)
  have 1: "mset rs = add_mset (ki, info_i) (mset (AList.delete ki rs))"
    using dk ei by (rule mset_delete_entry)
  have "distinct (map fst (AList.delete ki rs))" using dk by (rule distinct_delete)
  moreover have "(kj, info_j) \<in> set (AList.delete ki rs)"
    using ej ne by (auto simp: AList.delete_eq)
  ultimately have 2: "mset (AList.delete ki rs) = add_mset (kj, info_j) (mset ?r0)"
    by (rule mset_delete_entry)
  from 1 2 show m: "mset rs = mset ?r0 + {#(ki, info_i), (kj, info_j)#}" by simp
  have k: "mset (concat (map fst rs)) = mset (concat (map fst ?r0)) + mset ki + mset kj"
    unfolding keys_mset m by simp
  from b nei ri show bne: "best \<noteq> []" by auto
  then obtain x where x: "x \<in> set best" by (cases best) auto
  with b ri rj have xin: "x \<in># mset ki + mset kj" by (metis set_mset_mset)
  have fresh: "best \<notin> fst ` set ?r0"
  proof
    assume "best \<in> fst ` set ?r0"
    with x have "x \<in> set (concat (map fst ?r0))" by auto
    then have "0 < count (mset (concat (map fst ?r0))) x"
      by (simp only: count_greater_zero_iff set_mset_mset)
    moreover from xin have "0 < count (mset ki + mset kj) x"
      by (simp only: count_greater_zero_iff)
    moreover have "count (mset (concat (map fst rs))) x =
        count (mset (concat (map fst ?r0))) x + count (mset ki + mset kj) x"
      unfolding k by simp
    ultimately have "2 \<le> count (mset (concat (map fst rs))) x" by linarith
    moreover from c have "distinct (concat (map fst rs))" by (simp add: routes_consistent_def)
    then have "count (mset (concat (map fst rs))) x \<le> 1" by (simp add: distinct_count_atmost_1)
    ultimately show False by simp
  qed
  then show "AList.update best v ?r0 = ?r0 @ [(best, v)]" by (rule update_fresh)
  show "mset (concat (map fst (?r0 @ [(best, v)]))) = mset (concat (map fst rs))"
    unfolding k using b ri rj by simp
qed

subsection \<open>The invariant of the routes\<close>

lemma merge_step_consistent:
  assumes c: "routes_consistent (routes self)" and m: "merge_step self sv = Inr self'"
  shows "routes_consistent (routes self') \<and>
         mset (concat (map fst (routes self'))) = mset (concat (map fst (routes self)))"
proof -
  obtain s i j where sv: "sv = (s, i, j)" by (cases sv)
  from m[unfolded sv] show ?thesis
  proof (cases rule: merge_step_merged)
    case unchanged
    with c show ?thesis by simp
  next
    case (merged ki kj info_i info_j total cv best di dj ci cj db)
    let ?v = "\<lparr>route = best, vehicle = Some cv\<rparr>"
    let ?r0 = "AList.delete kj (AList.delete ki (routes self))"
    have b: "mset best = mset (route info_i) + mset (route info_j)"
      using merged(10) by (rule combine_routes_mset)
    note r = replace_two_by_one[OF c merged(5) merged(6) merged(7) b]
    have rs': "routes self' = ?r0 @ [(best, ?v)]" using merged(17) r(2) by simp
    have sub: "set ?r0 \<subseteq> set (routes self)" by (auto simp: AList.delete_eq)
    have k: "mset (concat (map fst (routes self'))) = mset (concat (map fst (routes self)))"
      unfolding rs' by (rule r(3))
    then have "distinct (concat (map fst (routes self'))) = distinct (concat (map fst (routes self)))"
      by (rule mset_eq_imp_distinct_iff)
    with c have d: "distinct (concat (map fst (routes self')))"
      by (simp add: routes_consistent_def)
    have "\<forall>(key, info)\<in>set (routes self'). route info = key \<and> key \<noteq> []"
      unfolding rs' using c sub r(4) by (auto simp: routes_consistent_def)
    with d k show ?thesis by (simp add: routes_consistent_def)
  qed
qed

lemma partition_by_keys:
  assumes "routes_consistent rs"
  shows "routes_partition n rs \<longleftrightarrow> set (concat (map fst rs)) = {1..n}"
  using assms unfolding routes_partition_def consistent_routes_are_keys[OF assms]
  by (simp add: routes_consistent_def)

lemma merge_step_partition:
  assumes c: "routes_consistent (routes self)" and p: "routes_partition n (routes self)"
    and m: "merge_step self sv = Inr self'"
  shows "routes_consistent (routes self') \<and> routes_partition n (routes self')"
proof -
  from merge_step_consistent[OF c m] have c': "routes_consistent (routes self')"
    and k: "mset (concat (map fst (routes self'))) = mset (concat (map fst (routes self)))"
    by simp_all
  from k have "set (concat (map fst (routes self'))) = set (concat (map fst (routes self)))"
    by (rule mset_eq_setD)
  with p c c' show ?thesis by (simp add: partition_by_keys)
qed

lemma concat_singletons: "concat (map (\<lambda>i. [f i]) xs) = map f xs"
  by (induction xs) simp_all

lemma initial_routes_keys:
  "concat (map fst (initial_routes locs vts)) = [1..<Suc (length locs - 1)]"
proof -
  have "concat (map fst (initial_routes locs vts)) = map Suc [0..<length locs - 1]"
    by (simp add: initial_routes_def comp_def concat_singletons)
  then show ?thesis by (simp only: map_Suc_upt) simp
qed

lemma initial_routes_consistent: "routes_consistent (initial_routes locs vts)"
  unfolding routes_consistent_def initial_routes_keys
  by (auto simp: initial_routes_def)

lemma initial_routes_partition: "routes_partition (length locs - 1) (initial_routes locs vts)"
  unfolding partition_by_keys[OF initial_routes_consistent] initial_routes_keys
  by auto

lemma merge_trace_partition:
  assumes "routes_consistent (routes self)" and "routes_partition n (routes self)"
  shows "\<forall>state\<in>set (merge_trace self savings).
           routes_consistent (routes state) \<and> routes_partition n (routes state)"
  using assms
proof (induction savings arbitrary: self)
  case Nil
  then show ?case by simp
next
  case (Cons sv rest)
  show ?case
  proof (cases "merge_step self sv")
    case (Inl e)
    with Cons.prems show ?thesis by simp
  next
    case (Inr self')
    from merge_step_partition[OF Cons.prems Inr]
    have "\<forall>state\<in>set (merge_trace self' rest).
        routes_consistent (routes state) \<and> routes_partition n (routes state)"
      using Cons.IH by blast
    with Cons.prems Inr show ?thesis by simp
  qed
qed

lemma merge_loop_last_trace:
  "merge_loop self savings = Inr final \<Longrightarrow> final = last (merge_trace self savings)"
proof (induction savings arbitrary: self)
  case Nil
  then show ?case by simp
next
  case (Cons sv rest)
  then obtain self' where s: "merge_step self sv = Inr self'" and l: "merge_loop self' rest = Inr final"
    by (auto simp: bind_result_eq_Inr)
  have "merge_trace self' rest \<noteq> []" by (cases rest) simp_all
  with Cons.IH[OF l] s show ?case by simp
qed

text \<open>
  Claim C1.  For every input, in the state that \<open>__init__\<close> returns and in every state
  of the merge loop after it (whatever list of savings the loop runs over, so in
  particular after every accepted merge), the routes of the dictionary partition the
  customers \<open>1..n\<close>, where \<open>n = len(locations) - 1\<close>: no customer occurs twice and the
  customers that occur are exactly \<open>1..n\<close>.  The state that the loop returns is the last
  of these states.
\<close>

theorem routes_partition_invariant:
  assumes "init locs vts = Inr self"
  shows "routes_partition (length locs - 1) (routes self) \<and>
    (\<forall>state\<in>set (merge_trace self savings). routes_partition (length locs - 1) (routes state)) \<and>
    (\<forall>final. merge_loop self savings = Inr final \<longrightarrow> final = last (merge_trace self savings))"
proof -
  from assms have r: "routes self = initial_routes locs vts" by (auto simp: init_def)
  have c: "routes_consistent (routes self)" unfolding r by (rule initial_routes_consistent)
  have p: "routes_partition (length locs - 1) (routes self)"
    unfolding r by (rule initial_routes_partition)
  from merge_trace_partition[OF c p, of savings] p merge_loop_last_trace[of self savings]
  show ?thesis by blast
qed

subsection \<open>The example on a meridian\<close>

lemma calculate_distance_meridian:
  "longitude a = longitude b \<Longrightarrow> calculate_distance a b = 100 * \<bar>latitude a - latitude b\<bar>"
  by (simp add: calculate_distance_def)

lemma calculate_cost_matrix_line: "calculate_cost_matrix locations_line = matrix_line"
  by (simp add: calculate_cost_matrix_def locations_line_def matrix_line_def
      calculate_distance_meridian Let_def upt_conv_Cons)

lemma find_smallest_vehicle_data:
  "find_smallest_vehicle vehicle_types_data 5 = Some type_A"
  "find_smallest_vehicle vehicle_types_data 8 = Some type_A"
  "find_smallest_vehicle vehicle_types_data 15 = Some type_A"
  "find_smallest_vehicle vehicle_types_data 13 = Some type_A"
  by (simp_all add: find_smallest_vehicle_def vehicle_types_data_def type_A_def)

lemma init_line: "init locations_line vehicle_types_data = Inr state_line"
  by (simp add: init_def calculate_cost_matrix_line state_line_def initial_routes_def
      find_smallest_vehicle_data upt_conv_Cons)
    (simp add: locations_line_def find_smallest_vehicle_data)

lemma matrix_line_distances:
  "calculate_route_distance matrix_line [Suc 0] = Inr 2"
  "calculate_route_distance matrix_line [2] = Inr 4"
  "calculate_route_distance matrix_line [3] = Inr 6"
  "calculate_route_distance matrix_line [Suc 0, 2] = Inr 4"
  "calculate_route_distance matrix_line [2, Suc 0] = Inr 4"
  by (simp_all add: calculate_route_distance_def matrix_at_def matrix_line_def)

lemma combine_routes_line:
  "combine_routes matrix_line [Suc 0] [2] = Inr (Some [Suc 0, 2])"
  by (simp add: combine_routes_def merged_routes_def matrix_line_distances less_than_min_def)

lemma type_A_fields: "capacity type_A = 25" "cost_per_km type_A = 6 / 5"
  by (simp_all add: type_A_def)

lemma evaluate_merge_line:
  "evaluate_merge state_line [Suc 0] [2] \<lparr>route = [Suc 0], vehicle = Some type_A\<rparr>
     \<lparr>route = [2], vehicle = Some type_A\<rparr> type_A = Inr state_line_merged"
  by (simp add: evaluate_merge_def state_line_def combine_routes_line matrix_line_distances
      vehicle_cost_per_km_def best_route_distance_def type_A_fields state_line_merged_def)

lemma try_merge_line: "try_merge state_line [Suc 0] [2] = Inr state_line_merged"
proof -
  have "demand_sum (locations state_line) ([Suc 0] @ [2]) = Inr 13"
    by (simp add: state_line_def location_at_def locations_line_def)
  moreover have "routes_get (routes state_line) [Suc 0] = Inr \<lparr>route = [Suc 0], vehicle = Some type_A\<rparr>"
    "routes_get (routes state_line) [2] = Inr \<lparr>route = [2], vehicle = Some type_A\<rparr>"
    by (simp_all add: routes_get_def state_line_def)
  moreover have "vehicle_types state_line = vehicle_types_data" by (simp add: state_line_def)
  ultimately show ?thesis
    by (simp add: try_merge_def find_smallest_vehicle_data evaluate_merge_line)
qed

lemma merge_step_line: "merge_step state_line (2, 1, 2) = Inr state_line_merged"
proof -
  have "find_route_key (routes state_line) 1 = Some [Suc 0]"
    "find_route_key (routes state_line) 2 = Some [2]"
    by (simp_all add: find_route_key_def state_line_def)
  then show ?thesis by (simp add: merge_step_def try_merge_line)
qed

theorem routes_partition_invariant_witness:
  "init locations_line vehicle_types_data = Inr state_line \<and>
   merge_trace state_line [(2, 1, 2)] = [state_line, state_line_merged] \<and>
   merge_loop state_line [(2, 1, 2)] = Inr state_line_merged \<and>
   routes_partition 3 (routes state_line) \<and>
   routes_partition 3 (routes state_line_merged)"
proof -
  have t: "merge_trace state_line [(2, 1, 2)] = [state_line, state_line_merged]"
    by (simp only: merge_trace.simps merge_step_line sum.case)
  have l: "merge_loop state_line [(2, 1, 2)] = Inr state_line_merged"
    by (simp only: merge_loop.simps merge_step_line bind_result_Inr)
  have n: "length locations_line - 1 = 3" by (simp add: locations_line_def)
  from routes_partition_invariant[OF init_line, of "[(2, 1, 2)]"]
  have "routes_partition 3 (routes state_line) \<and> routes_partition 3 (routes state_line_merged)"
    unfolding t n by simp
  with init_line t l show ?thesis by simp
qed

subsection \<open>The capacity of the routes\<close>

lemma demand_sum_eq:
  "demand_sum locs r =
     (if \<forall>c\<in>set r. c < length locs then Inr (\<Sum>c\<leftarrow>r. demand (locs ! c)) else Inl IndexError)"
  by (induction r) (auto simp: location_at_def)

lemma demand_sum_mset:
  assumes "mset a = mset b"
  shows "demand_sum locs a = demand_sum locs b"
proof -
  from assms have "set a = set b" by (rule mset_eq_setD)
  moreover have "(\<Sum>c\<leftarrow>a. demand (locs ! c)) = (\<Sum>c\<leftarrow>b. demand (locs ! c))"
    using assms by (metis mset_map sum_mset_sum_list)
  ultimately show ?thesis by (simp add: demand_sum_eq)
qed

lemma merge_step_fields:
  assumes "merge_step self sv = Inr self'"
  shows "locations self' = locations self \<and> vehicle_types self' = vehicle_types self \<and>
         cost_matrix self' = cost_matrix self"
proof -
  obtain s i j where sv: "sv = (s, i, j)" by (cases sv)
  from assms[unfolded sv] show ?thesis by (cases rule: merge_step_merged) simp_all
qed

lemma merge_step_capacity:
  assumes c: "routes_consistent (routes self)"
    and w: "\<forall>(key, info)\<in>set (routes self). route_within_capacity (locations self) info"
    and m: "merge_step self sv = Inr self'"
  shows "\<forall>(key, info)\<in>set (routes self'). route_within_capacity (locations self) info"
proof -
  obtain s i j where sv: "sv = (s, i, j)" by (cases sv)
  from m[unfolded sv] show ?thesis
  proof (cases rule: merge_step_merged)
    case unchanged
    with w show ?thesis by simp
  next
    case (merged ki kj info_i info_j total cv best di dj ci cj db)
    let ?v = "\<lparr>route = best, vehicle = Some cv\<rparr>"
    let ?r0 = "AList.delete kj (AList.delete ki (routes self))"
    have b: "mset best = mset (route info_i) + mset (route info_j)"
      using merged(10) by (rule combine_routes_mset)
    note r = replace_two_by_one[OF c merged(5) merged(6) merged(7) b]
    have rs': "routes self' = ?r0 @ [(best, ?v)]" using merged(17) r(2) by simp
    have sub: "set ?r0 \<subseteq> set (routes self)" by (auto simp: AList.delete_eq)
    have "demand_sum (locations self) best = Inr total"
      using demand_sum_mset[of best "route info_i @ route info_j"] b merged(8) by simp
    moreover have "total \<le> capacity cv"
      using merged(9) by (rule find_smallest_vehicle_Some)
    ultimately have "route_within_capacity (locations self) ?v"
      by (simp add: route_within_capacity_def)
    with w sub show ?thesis unfolding rs' by auto
  qed
qed

lemma merge_step_invariant:
  assumes "run_invariant locs self" and "merge_step self sv = Inr self'"
  shows "run_invariant locs self'"
proof -
  from assms(1) have l: "locations self = locs" and c: "routes_consistent (routes self)"
    and p: "routes_partition (length locs - 1) (routes self)"
    and w: "\<forall>(key, info)\<in>set (routes self). route_within_capacity (locations self) info"
    by (simp_all add: run_invariant_def)
  from merge_step_fields[OF assms(2)] merge_step_partition[OF c p assms(2)]
    merge_step_capacity[OF c w assms(2)] assms(1) l
  show ?thesis by (simp add: run_invariant_def)
qed

subsection \<open>No iteration raises in a state of a run\<close>

lemma find_route_key_entry:
  assumes "find_route_key rs i = Some k"
  shows "\<exists>info. (k, info) \<in> set rs \<and> i \<in> set (route info)"
proof -
  from assms obtain e where "find (\<lambda>(key, v). i \<in> set (route v)) rs = Some e" and "fst e = k"
    by (auto simp: find_route_key_def)
  then obtain n where "n < length rs" and n: "rs ! n = e" and "i \<in> set (route (snd e))"
    by (auto simp: find_Some_iff)
  then have "e \<in> set rs" by (metis nth_mem)
  with \<open>fst e = k\<close> \<open>i \<in> set (route (snd e))\<close> show ?thesis by (cases e) auto
qed

lemma invariant_entry:
  assumes inv: "run_invariant locs self" and e: "(k, info) \<in> set (routes self)"
  shows "map_of (routes self) k = Some info" and "route info = k" and "route info \<noteq> []"
    and "in_range (cost_matrix self) (route info)"
    and "\<forall>c\<in>set (route info). c < length locs"
    and "\<exists>w. vehicle info = Some w"
proof -
  from inv have c: "routes_consistent (routes self)"
    and p: "routes_partition (length locs - 1) (routes self)"
    and len: "length (cost_matrix self) = length locs"
    and w: "\<forall>(key, info)\<in>set (routes self). route_within_capacity locs info"
    by (simp_all add: run_invariant_def)
  from consistent_keys_distinct[OF c] e show "map_of (routes self) k = Some info" by simp
  from c e show rk: "route info = k" and "route info \<noteq> []"
    by (auto simp: routes_consistent_def)
  from p c have "set (concat (map fst (routes self))) = {1..length locs - 1}"
    by (simp add: partition_by_keys)
  with e have "set k \<subseteq> {1..length locs - 1}" by force
  then show r: "\<forall>c\<in>set (route info). c < length locs" unfolding rk by fastforce
  then show "in_range (cost_matrix self) (route info)" by (simp add: in_range_def len)
  from w e have "route_within_capacity locs info" by auto
  then show "\<exists>w. vehicle info = Some w"
    by (cases "vehicle info") (simp_all add: route_within_capacity_def)
qed

lemma evaluate_merge_total:
  assumes sq: "square_matrix (cost_matrix self)"
    and ri: "in_range (cost_matrix self) (route info_i)" "route info_i \<noteq> []"
    and rj: "in_range (cost_matrix self) (route info_j)" "route info_j \<noteq> []"
    and vi: "\<exists>w. vehicle info_i = Some w" and vj: "\<exists>w. vehicle info_j = Some w"
  shows "\<exists>self'. evaluate_merge self ki kj info_i info_j cv = Inr self'"
proof -
  let ?m = "cost_matrix self"
  from combine_routes_result[OF sq ri(1) rj(1) ri(2)] obtain k where
    k: "k < 4" and cr: "combine_routes ?m (route info_i) (route info_j) =
      Inr (Some (merged_routes (route info_i) (route info_j) ! k))" by blast
  let ?best = "merged_routes (route info_i) (route info_j) ! k"
  have "?best \<in> set (merged_routes (route info_i) (route info_j))"
    using k by (intro nth_mem) (simp add: merged_routes_def)
  from merged_routes_in_range[OF ri(1) rj(1) ri(2) this]
  obtain db where db: "calculate_route_distance ?m ?best = Inr db"
    using calculate_route_distance_in_range[OF sq] by blast
  obtain di where di: "calculate_route_distance ?m (route info_i) = Inr di"
    using calculate_route_distance_in_range[OF sq ri] by blast
  obtain dj where dj: "calculate_route_distance ?m (route info_j) = Inr dj"
    using calculate_route_distance_in_range[OF sq rj] by blast
  from vi vj obtain wi wj where w: "vehicle info_i = Some wi" "vehicle info_j = Some wj" by blast
  show ?thesis
    by (simp add: evaluate_merge_def cr di dj db w vehicle_cost_per_km_def
        best_route_distance_def Let_def)
qed

lemma merge_step_total:
  assumes inv: "run_invariant locs self"
  shows "\<exists>self'. merge_step self sv = Inr self'"
proof -
  obtain s i j where sv: "sv = (s, i, j)" by (cases sv)
  show ?thesis
  proof (cases "\<exists>ki kj. find_route_key (routes self) i = Some ki \<and>
      find_route_key (routes self) j = Some kj \<and> ki \<noteq> [] \<and> kj \<noteq> [] \<and> ki \<noteq> kj")
    case False
    then have "merge_step self sv = Inr self"
      by (auto simp: merge_step_def sv split: option.splits)
    then show ?thesis by blast
  next
    case True
    then obtain ki kj where k: "find_route_key (routes self) i = Some ki"
      "find_route_key (routes self) j = Some kj" "ki \<noteq> []" "kj \<noteq> []" "ki \<noteq> kj" by blast
    from find_route_key_entry[OF k(1)] obtain info_i where ei: "(ki, info_i) \<in> set (routes self)"
      by blast
    from find_route_key_entry[OF k(2)] obtain info_j where ej: "(kj, info_j) \<in> set (routes self)"
      by blast
    note i = invariant_entry[OF inv ei] and j = invariant_entry[OF inv ej]
    from inv have sq: "square_matrix (cost_matrix self)" and l: "locations self = locs"
      by (simp_all add: run_invariant_def)
    from i(5) j(5) have "\<forall>c\<in>set (route info_i @ route info_j). c < length locs" by auto
    then have "demand_sum (locations self) (route info_i @ route info_j) =
        Inr (\<Sum>c\<leftarrow>route info_i @ route info_j. demand (locs ! c))"
      unfolding demand_sum_eq l by simp
    then obtain total where
      d: "demand_sum (locations self) (route info_i @ route info_j) = Inr total" by blast
    have ms: "merge_step self sv = try_merge self ki kj"
      using k by (simp add: merge_step_def sv)
    show ?thesis
    proof (cases "find_smallest_vehicle (vehicle_types self) total")
      case None
      then have "try_merge self ki kj = Inr self"
        by (simp add: try_merge_def routes_get_def i(1) j(1) d)
      with ms show ?thesis by simp
    next
      case (Some cv)
      then have "try_merge self ki kj = evaluate_merge self ki kj info_i info_j cv"
        by (simp add: try_merge_def routes_get_def i(1) j(1) d)
      with ms evaluate_merge_total[OF sq i(4) i(3) j(4) j(3) i(6) j(6), of ki kj cv]
      show ?thesis by simp
    qed
  qed
qed

lemma merge_loop_total:
  assumes "run_invariant locs self"
  shows "\<exists>final. merge_loop self savings = Inr final \<and> run_invariant locs final"
  using assms
proof (induction savings arbitrary: self)
  case Nil
  then show ?case by simp
next
  case (Cons sv rest)
  from merge_step_total[OF Cons.prems] obtain self' where s: "merge_step self sv = Inr self'"
    by blast
  from merge_step_invariant[OF Cons.prems s] have "run_invariant locs self'" .
  from Cons.IH[OF this] s show ?case by simp
qed

lemma init_invariant:
  assumes cover: "\<forall>c. 1 \<le> c \<and> c < length locs \<longrightarrow> (\<exists>v\<in>set vts. demand (locs ! c) \<le> capacity v)"
    and i: "init locs vts = Inr self"
  shows "run_invariant locs self"
proof -
  from i have self: "self = \<lparr>locations = locs, vehicle_types = vts,
      cost_matrix = calculate_cost_matrix locs, routes = initial_routes locs vts\<rparr>"
    by (simp add: init_def)
  have "route_within_capacity locs info" if "(key, info) \<in> set (initial_routes locs vts)"
    for key info
  proof -
    from that obtain c where c: "1 \<le> c" "c < length locs"
      and info: "info = \<lparr>route = [c], vehicle = find_smallest_vehicle vts (demand (locs ! c))\<rparr>"
      by (auto simp: initial_routes_def)
    from cover c have "find_smallest_vehicle vts (demand (locs ! c)) \<noteq> None"
      by (simp add: find_smallest_vehicle_None not_less)
    then obtain w where w: "find_smallest_vehicle vts (demand (locs ! c)) = Some w" by blast
    from find_smallest_vehicle_Some(2)[OF w] c(2) show ?thesis
      by (simp add: route_within_capacity_def info w location_at_def)
  qed
  then have "\<forall>(key, info)\<in>set (initial_routes locs vts). route_within_capacity locs info"
    by auto
  with initial_routes_partition[of locs vts] show ?thesis
    by (simp add: run_invariant_def self square_calculate_cost_matrix
        length_calculate_cost_matrix initial_routes_consistent)
qed

text \<open>
  Claim C3.  When the demand of every single customer is covered by some vehicle of
  the catalog, initialisation and \<open>optimize_routes\<close> both return, and in the final
  dictionary every route has a vehicle and the sum of the demands of its customers is
  at most the capacity of that vehicle.
\<close>

theorem final_routes_within_capacity:
  assumes "\<forall>c. 1 \<le> c \<and> c < length locs \<longrightarrow> (\<exists>v\<in>set vts. demand (locs ! c) \<le> capacity v)"
  shows "\<exists>self final. init locs vts = Inr self \<and> optimize_routes self = Inr final \<and>
    (\<forall>(key, info)\<in>set (routes final).
       \<exists>w d. vehicle info = Some w \<and> demand_sum locs (route info) = Inr d \<and> d \<le> capacity w)"
proof -
  obtain self where i: "init locs vts = Inr self" by (simp add: init_def)
  from init_invariant[OF assms i] have inv: "run_invariant locs self" .
  then have "square_matrix (cost_matrix self)" "length (cost_matrix self) = length (locations self)"
    by (simp_all add: run_invariant_def)
  then have "n_customers self \<le> length (cost_matrix self) - 1" by (simp add: n_customers_def)
  with \<open>square_matrix (cost_matrix self)\<close>
  have "compute_savings (cost_matrix self) (n_customers self) =
      Inr (savings_enum (cost_matrix self) 0 (n_customers self))"
    by (rule compute_savings_in_range)
  then have o: "optimize_routes self =
      merge_loop self (sort_reverse (savings_enum (cost_matrix self) 0 (n_customers self)))"
    by (simp add: optimize_routes_def sorted_savings_def)
  from merge_loop_total[OF inv] o obtain final where
    f: "optimize_routes self = Inr final" and finv: "run_invariant locs final" by metis
  have "\<forall>(key, info)\<in>set (routes final).
       \<exists>w d. vehicle info = Some w \<and> demand_sum locs (route info) = Inr d \<and> d \<le> capacity w"
  proof (intro ballI, clarify)
    fix key info assume "(key, info) \<in> set (routes final)"
    with finv have "route_within_capacity locs info" by (auto simp: run_invariant_def)
    then show "\<exists>w d. vehicle info = Some w \<and> demand_sum locs (route info) = Inr d \<and>
        d \<le> capacity w"
      by (auto simp: route_within_capacity_def split: option.splits sum.splits)
  qed
  with i f show ?thesis by blast
qed

subsection \<open>The run of the example on a meridian\<close>

lemma type_B_fields: "capacity type_B = 30" "cost_per_km type_B = 3 / 2"
  by (simp_all add: type_B_def)

lemma find_smallest_vehicle_28: "find_smallest_vehicle vehicle_types_data 28 = Some type_B"
  by (simp add: find_smallest_vehicle_def vehicle_types_data_def type_B_def)

lemma matrix_line_distances3:
  "calculate_route_distance matrix_line [Suc 0, 2, 3] = Inr 10"
  "calculate_route_distance matrix_line [3, Suc 0, 2] = Inr 10"
  "calculate_route_distance matrix_line [2, Suc 0, 3] = Inr 10"
  by (simp_all add: calculate_route_distance_def matrix_at_def matrix_line_def)

lemma combine_routes_line3:
  "combine_routes matrix_line [Suc 0, 2] [3] = Inr (Some [Suc 0, 2, 3])"
  by (simp add: combine_routes_def merged_routes_def matrix_line_distances3 less_than_min_def)

lemma evaluate_merge_line3:
  "evaluate_merge state_line_merged [Suc 0, 2] [3] \<lparr>route = [Suc 0, 2], vehicle = Some type_A\<rparr>
     \<lparr>route = [3], vehicle = Some type_A\<rparr> type_B = Inr state_line_merged"
  by (simp add: evaluate_merge_def state_line_merged_def combine_routes_line3
      matrix_line_distances matrix_line_distances3 vehicle_cost_per_km_def
      best_route_distance_def type_A_fields type_B_fields)

lemma try_merge_line3: "try_merge state_line_merged [Suc 0, 2] [3] = Inr state_line_merged"
proof -
  have "demand_sum (locations state_line_merged) ([Suc 0, 2] @ [3]) = Inr 28"
    by (simp add: state_line_merged_def location_at_def locations_line_def)
  moreover have
    "routes_get (routes state_line_merged) [Suc 0, 2] =
       Inr \<lparr>route = [Suc 0, 2], vehicle = Some type_A\<rparr>"
    "routes_get (routes state_line_merged) [3] = Inr \<lparr>route = [3], vehicle = Some type_A\<rparr>"
    by (simp_all add: routes_get_def state_line_merged_def)
  moreover have "vehicle_types state_line_merged = vehicle_types_data"
    by (simp add: state_line_merged_def)
  ultimately show ?thesis
    by (simp add: try_merge_def find_smallest_vehicle_28 evaluate_merge_line3)
qed

lemma merge_step_line3:
  "merge_step state_line_merged (0, 1, 3) = Inr state_line_merged"
  "merge_step state_line_merged (0, 2, 3) = Inr state_line_merged"
proof -
  have "find_route_key (routes state_line_merged) 1 = Some [Suc 0, 2]"
    "find_route_key (routes state_line_merged) 2 = Some [Suc 0, 2]"
    "find_route_key (routes state_line_merged) 3 = Some [3]"
    by (simp_all add: find_route_key_def state_line_merged_def)
  then show "merge_step state_line_merged (0, 1, 3) = Inr state_line_merged"
    "merge_step state_line_merged (0, 2, 3) = Inr state_line_merged"
    by (simp_all add: merge_step_def try_merge_line3)
qed

lemma sorted_savings_line:
  "sorted_savings state_line = Inr [(2, 1, 2), (0, 1, 3), (0, 2, 3)]"
proof -
  have n: "n_customers state_line = Suc (Suc (Suc 0))"
    by (simp add: n_customers_def state_line_def locations_line_def)
  have c: "cost_matrix state_line = matrix_line" by (simp add: state_line_def)
  have "compute_savings matrix_line (Suc (Suc (Suc 0))) = Inr [(2, 1, 2), (0, 1, 3), (0, 2, 3)]"
    by (simp add: compute_savings_def matrix_line_def saving_entry_def matrix_at_def)
  then show ?thesis by (simp add: sorted_savings_def n c sort_reverse_def)
qed

lemma optimize_routes_line: "optimize_routes state_line = Inr state_line_merged"
  by (simp only: optimize_routes_def sorted_savings_line bind_result_Inr merge_loop.simps
      merge_step_line merge_step_line3)

lemma locations_line_coverable:
  "\<forall>c. 1 \<le> c \<and> c < length locations_line \<longrightarrow>
     (\<exists>v\<in>set vehicle_types_data. demand (locations_line ! c) \<le> capacity v)"
proof (intro allI impI)
  fix c :: nat assume "1 \<le> c \<and> c < length locations_line"
  then have "c = 1 \<or> c = 2 \<or> c = 3" by (auto simp: locations_line_def)
  then show "\<exists>v\<in>set vehicle_types_data. demand (locations_line ! c) \<le> capacity v"
    by (auto simp: locations_line_def vehicle_types_data_def)
qed

theorem final_routes_within_capacity_witness:
  "init locations_line vehicle_types_data = Inr state_line \<and>
   optimize_routes state_line = Inr state_line_merged \<and>
   routes state_line_merged =
     [([3], \<lparr>route = [3], vehicle = Some type_A\<rparr>),
      ([1, 2], \<lparr>route = [1, 2], vehicle = Some type_A\<rparr>)] \<and>
   (\<exists>d. demand_sum locations_line [3] = Inr d \<and> d \<le> capacity type_A) \<and>
   (\<exists>d. demand_sum locations_line [1, 2] = Inr d \<and> d \<le> capacity type_A)"
proof -
  from final_routes_within_capacity[OF locations_line_coverable]
  obtain self final where "init locations_line vehicle_types_data = Inr self"
    and "optimize_routes self = Inr final"
    and w: "\<forall>(key, info)\<in>set (routes final).
       \<exists>w d. vehicle info = Some w \<and> demand_sum locations_line (route info) = Inr d \<and>
         d \<le> capacity w"
    by blast
  then have "self = state_line" "final = state_line_merged"
    by (simp_all add: init_line optimize_routes_line)
  with w have "(\<exists>d. demand_sum locations_line [3] = Inr d \<and> d \<le> capacity type_A) \<and>
    (\<exists>d. demand_sum locations_line [1, 2] = Inr d \<and> d \<le> capacity type_A)"
    by (simp add: state_line_merged_def)
  with init_line optimize_routes_line show ?thesis by (simp add: state_line_merged_def)
qed

subsection \<open>The total cost\<close>









subsection \<open>A pair that no vehicle can serve\<close>

lemma infeasible_step:
  assumes "find_route_key (routes self) i = Some ki"
    and "find_route_key (routes self) j = Some kj"
    and "map_of (routes self) ki = Some info_i"
    and "map_of (routes self) kj = Some info_j"
    and "demand_sum (locations self) (route info_i @ route info_j) = Inr d"
    and "\<forall>v\<in>set (vehicle_types self). capacity v < d"
  shows "merge_step self (s, i, j) = Inr self"
proof -
  from assms(6) have "find_smallest_vehicle (vehicle_types self) d = None"
    by (simp add: find_smallest_vehicle_None)
  then have "try_merge self ki kj = Inr self"
    by (simp add: try_merge_def routes_get_def assms(3,4,5))
  then show ?thesis by (simp add: merge_step_def assms(1,2))
qed

lemma initial_routes_pair:
  assumes "length locs = 3"
  shows "initial_routes locs vts =
     [([1], \<lparr>route = [1], vehicle = find_smallest_vehicle vts (demand (locs ! 1))\<rparr>),
      ([2], \<lparr>route = [2], vehicle = find_smallest_vehicle vts (demand (locs ! 2))\<rparr>)]"
proof -
  have "[0..<length locs - 1] = [0, 1]" using assms by (simp add: upt_conv_Cons)
  then show ?thesis by (simp add: initial_routes_def numeral_2_eq_2)
qed

lemma sorted_savings_pair:
  assumes "length (locations self) = 3" and "square_matrix (cost_matrix self)"
    and "length (cost_matrix self) = 3"
  shows "\<exists>v. sorted_savings self = Inr [(v, 1, 2)]"
proof -
  have n: "n_customers self = 2" using assms(1) by (simp add: n_customers_def)
  have "compute_savings (cost_matrix self) 2 = Inr (savings_enum (cost_matrix self) 0 2)"
    using assms(2) by (rule compute_savings_in_range) (simp add: assms(3))
  moreover have "[0..<2] = [0, Suc 0]" "[Suc 0..<2] = [Suc 0]" by (simp_all add: upt_conv_Cons)
  then have "\<exists>v. savings_enum (cost_matrix self) 0 2 = [(v, 1, 2)]"
    by (simp add: savings_enum_def)
  ultimately show ?thesis by (auto simp: sorted_savings_def n sort_reverse_def)
qed

text \<open>
  Claim C9.  In any state, when the routes of \<open>i\<close> and \<open>j\<close> are found, their joint
  demand can be summed and exceeds the capacity of every vehicle, the iteration for
  \<open>(i, j)\<close> raises nothing and returns the state unchanged, so both routes keep their
  sequences and vehicles, and the loop goes on with the rest of the list.  In
  particular, with exactly two customers whose joint demand exceeds every capacity,
  initialisation and \<open>optimize_routes\<close> return and the final dictionary holds the two
  singleton routes of the initialisation, whatever the saving is.
\<close>

theorem infeasible_merge_is_skipped:
  "(find_route_key (routes self) i = Some ki \<and> find_route_key (routes self) j = Some kj \<and>
    map_of (routes self) ki = Some info_i \<and> map_of (routes self) kj = Some info_j \<and>
    demand_sum (locations self) (route info_i @ route info_j) = Inr d \<and>
    (\<forall>v\<in>set (vehicle_types self). capacity v < d) \<longrightarrow>
      merge_step self (s, i, j) = Inr self \<and>
      merge_loop self ((s, i, j) # rest) = merge_loop self rest) \<and>
   (length locs = 3 \<and> (\<forall>v\<in>set vts. capacity v < demand (locs ! 1) + demand (locs ! 2)) \<longrightarrow>
      (\<exists>self0. init locs vts = Inr self0 \<and> optimize_routes self0 = Inr self0 \<and>
         routes self0 =
           [([1], \<lparr>route = [1], vehicle = find_smallest_vehicle vts (demand (locs ! 1))\<rparr>),
            ([2], \<lparr>route = [2], vehicle = find_smallest_vehicle vts (demand (locs ! 2))\<rparr>)]))"
proof (intro conjI impI)
  assume a: "find_route_key (routes self) i = Some ki \<and> find_route_key (routes self) j = Some kj \<and>
    map_of (routes self) ki = Some info_i \<and> map_of (routes self) kj = Some info_j \<and>
    demand_sum (locations self) (route info_i @ route info_j) = Inr d \<and>
    (\<forall>v\<in>set (vehicle_types self). capacity v < d)"
  then show m: "merge_step self (s, i, j) = Inr self"
    using infeasible_step[of self i ki j kj info_i info_j d s] by blast
  then show "merge_loop self ((s, i, j) # rest) = merge_loop self rest" by simp
next
  assume a: "length locs = 3 \<and> (\<forall>v\<in>set vts. capacity v < demand (locs ! 1) + demand (locs ! 2))"
  let ?r = "[([1], \<lparr>route = [1], vehicle = find_smallest_vehicle vts (demand (locs ! 1))\<rparr>),
            ([2], \<lparr>route = [2], vehicle = find_smallest_vehicle vts (demand (locs ! 2))\<rparr>)]"
  define self0 where "self0 = \<lparr>locations = locs, vehicle_types = vts,
      cost_matrix = calculate_cost_matrix locs, routes = initial_routes locs vts\<rparr>"
  have i: "init locs vts = Inr self0" by (simp add: init_def self0_def)
  have r: "routes self0 = ?r" using a by (simp add: self0_def initial_routes_pair)
  have "\<exists>v. sorted_savings self0 = Inr [(v, 1, 2)]"
    using a by (intro sorted_savings_pair)
      (simp_all add: self0_def square_calculate_cost_matrix length_calculate_cost_matrix)
  then obtain v where ss: "sorted_savings self0 = Inr [(v, 1, 2)]" by blast
  have "merge_step self0 (v, 1, 2) = Inr self0"
  proof (rule infeasible_step)
    show "find_route_key (routes self0) 1 = Some [1]" by (simp add: r find_route_key_def)
    show "find_route_key (routes self0) 2 = Some [2]" by (simp add: r find_route_key_def)
    show "map_of (routes self0) [1] =
        Some \<lparr>route = [1], vehicle = find_smallest_vehicle vts (demand (locs ! 1))\<rparr>"
      by (simp add: r)
    show "map_of (routes self0) [2] =
        Some \<lparr>route = [2], vehicle = find_smallest_vehicle vts (demand (locs ! 2))\<rparr>"
      by (simp add: r)
    show "demand_sum (locations self0)
        (route \<lparr>route = [1], vehicle = find_smallest_vehicle vts (demand (locs ! 1))\<rparr> @
         route \<lparr>route = [2], vehicle = find_smallest_vehicle vts (demand (locs ! 2))\<rparr>) =
        Inr (demand (locs ! 1) + demand (locs ! 2))"
      using a by (simp add: self0_def location_at_def)
    show "\<forall>v\<in>set (vehicle_types self0). capacity v < demand (locs ! 1) + demand (locs ! 2)"
      using a by (simp add: self0_def)
  qed
  then have "optimize_routes self0 = Inr self0" by (simp add: optimize_routes_def ss)
  with i r show "\<exists>self0. init locs vts = Inr self0 \<and> optimize_routes self0 = Inr self0 \<and>
      routes self0 = ?r" by blast
qed

lemma init_pair: "init locations_pair vehicle_types_data = Inr state_pair"
proof -
  have "find_smallest_vehicle vehicle_types_data 20 = Some type_A"
    "find_smallest_vehicle vehicle_types_data 15 = Some type_A"
    by (simp_all add: find_smallest_vehicle_def vehicle_types_data_def type_A_def)
  moreover have "length locations_pair = 3" "demand (locations_pair ! 1) = 20"
    "demand (locations_pair ! 2) = 15"
    by (simp_all add: locations_pair_def)
  ultimately have "initial_routes locations_pair vehicle_types_data = routes state_pair"
    by (simp add: initial_routes_pair state_pair_def)
  then show ?thesis by (simp add: init_def state_pair_def)
qed

theorem infeasible_merge_is_skipped_witness:
  "init locations_pair vehicle_types_data = Inr state_pair \<and>
   find_route_key (routes state_pair) 1 = Some [1] \<and>
   find_route_key (routes state_pair) 2 = Some [2] \<and>
   map_of (routes state_pair) [1] = Some \<lparr>route = [1], vehicle = Some type_A\<rparr> \<and>
   map_of (routes state_pair) [2] = Some \<lparr>route = [2], vehicle = Some type_A\<rparr> \<and>
   demand_sum (locations state_pair) ([1] @ [2]) = Inr 35 \<and>
   capacity type_A < 35 \<and> capacity type_B < 35 \<and>
   merge_step state_pair (7, 1, 2) = Inr state_pair \<and>
   merge_loop state_pair [(7, 1, 2)] = Inr state_pair \<and>
   optimize_routes state_pair = Inr state_pair"
proof -
  have k: "find_route_key (routes state_pair) 1 = Some [1]"
    "find_route_key (routes state_pair) 2 = Some [2]"
    by (simp_all add: find_route_key_def state_pair_def)
  have g: "map_of (routes state_pair) [1] = Some \<lparr>route = [1], vehicle = Some type_A\<rparr>"
    "map_of (routes state_pair) [2] = Some \<lparr>route = [2], vehicle = Some type_A\<rparr>"
    by (simp_all add: state_pair_def)
  have d: "demand_sum (locations state_pair)
      (route \<lparr>route = [1], vehicle = Some type_A\<rparr> @ route \<lparr>route = [2], vehicle = Some type_A\<rparr>) =
      Inr 35"
    by (simp add: state_pair_def location_at_def locations_pair_def)
  have c: "\<forall>v\<in>set (vehicle_types state_pair). capacity v < 35"
    by (simp add: state_pair_def vehicle_types_data_def)
  have l: "length locations_pair = 3"
    "\<forall>v\<in>set vehicle_types_data.
       capacity v < demand (locations_pair ! 1) + demand (locations_pair ! 2)"
    by (simp_all add: locations_pair_def vehicle_types_data_def)
  note t = infeasible_merge_is_skipped[of state_pair 1 "[1]" 2 "[2]"
      "\<lparr>route = [1], vehicle = Some type_A\<rparr>" "\<lparr>route = [2], vehicle = Some type_A\<rparr>" 35 7 "[]"
      locations_pair vehicle_types_data]
  from t k g d c have s: "merge_step state_pair (7, 1, 2) = Inr state_pair"
    and m: "merge_loop state_pair [(7, 1, 2)] = merge_loop state_pair []" by blast+
  from t l obtain self0 where "init locations_pair vehicle_types_data = Inr self0"
    and "optimize_routes self0 = Inr self0" by blast
  then have o: "optimize_routes state_pair = Inr state_pair" by (simp add: init_pair)
  from d have d': "demand_sum (locations state_pair) ([1] @ [2]) = Inr 35" by simp
  from init_pair k g d' s m o show ?thesis by (simp add: type_A_fields type_B_fields)
qed

section \<open>Initialisation with a demand that no vehicle covers\<close>








end
